theory Spec2Isabelle
  imports Complex_Main
begin

section \<open>Tensors and the torch operations the synthesisers use\<close>

text \<open>
  A tensor is a nested list, outermost dimension first: a 2-D tensor (rows of samples)
  is a list of rows, a 3-D tensor (batch, channel, time) a list of 2-D tensors.  Sample
  values are real numbers; the rounding of float32 is not modelled.  A nested list
  cannot record the trailing sizes of a tensor whose leading dimension is empty, so the
  size functions read such sizes as 0; the results below are stated for tensors whose
  dimensions are all non-empty.
\<close>

datatype error =
    RuntimeError         \<comment> \<open>raised inside torch (size mismatch, empty input)\<close>
  | ZeroDivisionError    \<comment> \<open>raised by Python's \<open>/\<close> and \<open>%\<close> on integers\<close>
  | InvalidShapeError    \<comment> \<open>named by the specification; no source line raises it\<close>

definition dim0 :: "'a list \<Rightarrow> nat" where
  "dim0 t = length t"

definition dim1 :: "'a list list \<Rightarrow> nat" where
  "dim1 t = (case t of [] \<Rightarrow> 0 | r # _ \<Rightarrow> length r)"

definition dim2 :: "'a list list list \<Rightarrow> nat" where
  "dim2 t = (case t of [] \<Rightarrow> 0 | m # _ \<Rightarrow> dim1 m)"

definition rect2 :: "nat \<Rightarrow> nat \<Rightarrow> 'a list list \<Rightarrow> bool" where
  \<comment> \<open>the nested list is a tensor of shape (r, c)\<close>
  "rect2 r c t = (length t = r \<and> list_all (\<lambda>row. length row = c) t)"

definition rect3 :: "nat \<Rightarrow> nat \<Rightarrow> nat \<Rightarrow> 'a list list list \<Rightarrow> bool" where
  \<comment> \<open>the nested list is a tensor of shape (b, c, n)\<close>
  "rect3 b c n t = (length t = b \<and> list_all (rect2 c n) t)"

subsection \<open>Slicing and splitting along the last dimension\<close>

definition slice_last :: "nat \<Rightarrow> nat \<Rightarrow> 'a list list list \<Rightarrow> 'a list list list" where
  \<comment> \<open>\<open>t[:, :, a:b]\<close> for \<open>0 \<le> a \<le> b\<close>: Python clamps the slice to the tensor\<close>
  "slice_last a b t = map (map (\<lambda>row. take (b - a) (drop a row))) t"

fun split_sections :: "nat \<Rightarrow> nat list \<Rightarrow> 'a list list list \<Rightarrow> 'a list list list list" where
  "split_sections off [] t = []"
| "split_sections off (n # ns) t = slice_last off (off + n) t # split_sections (off + n) ns t"

definition torch_split :: "'a list list list \<Rightarrow> nat list \<Rightarrow> error + 'a list list list list" where
  \<comment> \<open>\<open>torch.split(t, sizes, dim=-1)\<close>: the sizes must sum to the size of the dimension\<close>
  "torch_split t sizes =
     (if sum_list sizes \<noteq> dim2 t then Inl RuntimeError
      else Inr (split_sections 0 sizes t))"

subsection \<open>Concatenation along the last dimension\<close>

definition cat2 :: "'a list list list \<Rightarrow> 'a list list list \<Rightarrow> 'a list list list" where
  \<comment> \<open>\<open>torch.cat((a, b), dim=-1)\<close> of 3-D tensors that agree on the first two dimensions\<close>
  "cat2 a b = map2 (map2 (@)) a b"

fun cat_last :: "'a list list list list \<Rightarrow> 'a list list list" where
  "cat_last [] = []"
| "cat_last [t] = t"
| "cat_last (t # ts) = cat2 t (cat_last ts)"

subsection \<open>Broadcasting\<close>

text \<open>
  \<open>sequence\<close> collects the results of an elementwise operation; the first error wins.
  \<open>bcast2 f xs ys\<close> pairs two dimensions by torch's broadcasting rule: equal sizes are
  paired elementwise, a size of 1 is stretched to the other size, anything else is a
  \<open>RuntimeError\<close>.
\<close>

fun sequence :: "(error + 'a) list \<Rightarrow> error + 'a list" where
  "sequence [] = Inr []"
| "sequence (Inl e # rs) = Inl e"
| "sequence (Inr x # rs) = (case sequence rs of Inl e \<Rightarrow> Inl e | Inr xs \<Rightarrow> Inr (x # xs))"

definition bcast2 :: "('a \<Rightarrow> 'b \<Rightarrow> error + 'c) \<Rightarrow> 'a list \<Rightarrow> 'b list \<Rightarrow> error + 'c list" where
  "bcast2 f xs ys =
     (if length xs = length ys then sequence (map2 f xs ys)
      else if length xs = 1 then sequence (map (f (hd xs)) ys)
      else if length ys = 1 then sequence (map (\<lambda>x. f x (hd ys)) xs)
      else Inl RuntimeError)"

definition mul3 :: "real list list list \<Rightarrow> real list list list \<Rightarrow> error + real list list list" where
  \<comment> \<open>\<open>a * b\<close> of two 3-D tensors\<close>
  "mul3 a b = bcast2 (bcast2 (bcast2 (\<lambda>x y. Inr (x * y)))) a b"

definition sum_dim1 :: "real list list list \<Rightarrow> real list list list" where
  \<comment> \<open>\<open>torch.sum(x, dim=1, keepdim=True)\<close> of a tensor of shape (b, k, n) with \<open>k > 0\<close>:
      shape (b, 1, n)\<close>
  "sum_dim1 x = map (\<lambda>m. [foldr (map2 (+)) m (replicate (dim1 m) 0)]) x"

definition expand :: "nat \<Rightarrow> 'a list \<Rightarrow> error + 'a list" where
  \<comment> \<open>stretch one dimension to size \<open>n\<close>: only a size of 1 may be stretched\<close>
  "expand n xs =
     (if length xs = n then Inr xs
      else if length xs = 1 then Inr (replicate n (hd xs))
      else Inl RuntimeError)"

definition copy_into :: "'a list list \<Rightarrow> 'a list list \<Rightarrow> error + 'a list list" where
  \<comment> \<open>\<open>dest.copy_(src)\<close> for 2-D tensors: \<open>src\<close> is broadcast to the shape of \<open>dest\<close>\<close>
  "copy_into dest src =
     (case expand (dim0 dest) src of
        Inl e \<Rightarrow> Inl e
      | Inr rows \<Rightarrow> sequence (map (expand (dim1 dest)) rows))"

subsection \<open>Linear upsampling\<close>

text \<open>
  \<open>F.interpolate(x, scale_factor=float(r), mode='linear')\<close> on a 3-D tensor
  (batch, channel, length), with torch's default \<open>align_corners=False\<close>: output sample
  \<open>i\<close> reads the input at position \<open>(i + 1/2) / r - 1/2\<close>, clamped below at 0, and mixes
  the two neighbouring input samples, the right neighbour clamped to the last one.
  The output has \<open>length * r\<close> samples.  torch rejects an input whose channel or length
  dimension is empty and an output of length 0.
\<close>

definition interpolate_row :: "nat \<Rightarrow> real list \<Rightarrow> real list" where
  "interpolate_row r xs =
     map (\<lambda>i. let src = max 0 ((real i + 1 / 2) / real r - 1 / 2);
                  i0 = min (nat \<lfloor>src\<rfloor>) (length xs - 1);
                  lam = min (max (src - real i0) 0) 1;
                  i1 = i0 + (if i0 < length xs - 1 then 1 else 0)
              in (1 - lam) * xs ! i0 + lam * xs ! i1)
         [0..<length xs * r]"

definition interpolate :: "nat \<Rightarrow> real list list list \<Rightarrow> error + real list list list" where
  "interpolate r x =
     (if dim1 x = 0 \<or> dim2 x = 0 \<or> dim2 x * r = 0 then Inl RuntimeError
      else Inr (map (map (interpolate_row r)) x))"

subsection \<open>Rolling, tiling, trimming\<close>

definition roll_row :: "int \<Rightarrow> 'a list \<Rightarrow> 'a list" where
  \<comment> \<open>\<open>torch.roll\<close> of one row: element \<open>i\<close> moves to \<open>(i + shifts) mod length\<close>\<close>
  "roll_row shifts xs =
     (if xs = [] then [] else rotate (nat ((- shifts) mod int (length xs))) xs)"

definition roll_last :: "int \<Rightarrow> 'a list list \<Rightarrow> 'a list list" where
  \<comment> \<open>\<open>torch.roll(t, shifts=shifts, dims=-1)\<close> of a 2-D tensor\<close>
  "roll_last shifts t = map (roll_row shifts) t"

definition repeat_last :: "nat \<Rightarrow> 'a list list \<Rightarrow> 'a list list" where
  \<comment> \<open>\<open>t.repeat(1, k)\<close> of a 2-D tensor\<close>
  "repeat_last k t = map (\<lambda>row. concat (replicate k row)) t"

definition trim_last :: "nat \<Rightarrow> 'a list list \<Rightarrow> 'a list list" where
  \<comment> \<open>\<open>t[:, :n]\<close> of a 2-D tensor\<close>
  "trim_last n t = map (take n) t"

subsection \<open>Phases\<close>

fun cumsum_from :: "real \<Rightarrow> real list \<Rightarrow> real list" where
  "cumsum_from acc [] = []"
| "cumsum_from acc (x # xs) = (acc + x) # cumsum_from (acc + x) xs"

definition cumsum :: "real list \<Rightarrow> real list" where
  \<comment> \<open>\<open>cumsum(dim=-1)\<close> of one row\<close>
  "cumsum xs = cumsum_from 0 xs"

definition float_mod :: "real \<Rightarrow> real \<Rightarrow> real" where
  \<comment> \<open>\<open>x % y\<close> on floats, for \<open>y > 0\<close>: the result lies in \<open>[0, y)\<close>\<close>
  "float_mod x y = x - y * of_int \<lfloor>x / y\<rfloor>"

definition map3 :: "('a \<Rightarrow> 'b) \<Rightarrow> 'a list list list \<Rightarrow> 'b list list list" where
  \<comment> \<open>an elementwise operation on a 3-D tensor\<close>
  "map3 f = map (map (map f))"

definition add_phases :: "real list list list \<Rightarrow> real list list \<Rightarrow> error + real list list list" where
  \<comment> \<open>\<open>(phases.permute(2, 0, 1) + p).permute(1, 2, 0)\<close>: \<open>p[b][s]\<close> is added to every time
      step of \<open>phases[b][s]\<close>, batch and channel dimensions paired by broadcasting\<close>
  "add_phases ph p = bcast2 (bcast2 (\<lambda>row c. Inr (map (\<lambda>x. x + c) row))) ph p"

definition last_step :: "real list list list \<Rightarrow> real list list" where
  \<comment> \<open>\<open>x[:, :, -1]\<close>, for a non-empty last dimension\<close>
  "last_step x = map (map last) x"

section \<open>The generators\<close>

text \<open>
  \<open>NoiseBandSynth\<close>: the filter bank is built outside the files at hand, so its
  \<open>noisebands\<close> buffer (filter \<times> sample) is a field of the record.  \<open>training\<close> is the
  flag every \<open>nn.Module\<close> carries; a freshly built module has it set.

  Counts and the resampling factor are natural numbers, the sample rate and the stored
  shift are integers.  A resampling factor of 0 stands for every factor that asks for
  an output of non-positive length, which torch rejects.
\<close>

record NoiseBandSynth =
  nbs_resampling_factor :: nat
  nbs_n_filters :: nat
  nbs_noisebands :: "real list list"
  nbs_noisebands_shift :: int
  nbs_training :: bool

definition NoiseBandSynth_init :: "nat \<Rightarrow> real list list \<Rightarrow> nat \<Rightarrow> NoiseBandSynth" where
  "NoiseBandSynth_init n_filters filterbank_noisebands resampling_factor =
     \<lparr> nbs_resampling_factor = resampling_factor,
       nbs_n_filters = n_filters,
       nbs_noisebands = filterbank_noisebands,
       nbs_noisebands_shift = 0,
       nbs_training = True \<rparr>"

record SineSynth =
  fs :: int
  n_sines :: nat
  resampling_factor :: nat
  phases :: "real list list option"
  streaming :: bool

definition SineSynth_init :: "int \<Rightarrow> nat \<Rightarrow> nat \<Rightarrow> bool \<Rightarrow> SineSynth" where
  "SineSynth_init fs0 n_sines0 resampling_factor0 streaming0 =
     \<lparr> fs = fs0, n_sines = n_sines0, resampling_factor = resampling_factor0,
       phases = None, streaming = streaming0 \<rparr>"

record HarmonicSynth = SineSynth +
  n_harmonics :: nat

definition HarmonicSynth_init :: "int \<Rightarrow> nat \<Rightarrow> nat \<Rightarrow> bool \<Rightarrow> HarmonicSynth" where
  "HarmonicSynth_init fs0 n_harmonics0 resampling_factor0 streaming0 =
     \<lparr> fs = fs0, n_sines = n_harmonics0, resampling_factor = resampling_factor0,
       phases = None, streaming = streaming0, n_harmonics = n_harmonics0 \<rparr>"

datatype synth =
    NoiseBand NoiseBandSynth
  | Sine SineSynth
  | Harmonic HarmonicSynth

fun call_params :: "synth \<Rightarrow> (string \<times> nat) list" where
  "call_params (NoiseBand s) = [(''amplitudes'', nbs_n_filters s)]"
| "call_params (Sine s) = [(''frequencies'', n_sines s), (''amplitudes'', n_sines s)]"
| "call_params (Harmonic s) = [(''fundamental'', 1), (''amplitudes'', n_harmonics s)]"

definition total_params :: "synth \<Rightarrow> nat" where
  "total_params s = sum_list (map snd (call_params s))"

section \<open>SynthRegister\<close>

record SynthRegister =
  synths :: "synth list"

definition SynthRegister_init :: SynthRegister where
  "SynthRegister_init = \<lparr> synths = [] \<rparr>"

definition register :: "SynthRegister \<Rightarrow> synth \<Rightarrow> SynthRegister" where
  "register reg s = reg\<lparr> synths := synths reg @ [s] \<rparr>"

definition register_total_params :: "SynthRegister \<Rightarrow> nat" where
  "register_total_params reg = sum_list (map total_params (synths reg))"

text \<open>
  The loop of \<open>split_params\<close>.  \<open>params_offset\<close> is set to 0 before the loop and the
  loop body never assigns it, so every iteration passes it on unchanged.
\<close>

fun split_params_loop ::
  "synth list \<Rightarrow> nat \<Rightarrow> 'a list list list \<Rightarrow> 'a list list list list list
     \<Rightarrow> error + 'a list list list list list" where
  "split_params_loop [] params_offset params params_list = Inr params_list"
| "split_params_loop (s # rest) params_offset params params_list =
     (let synth_params = slice_last params_offset (params_offset + total_params s) params
      in case torch_split synth_params (map snd (call_params s)) of
           Inl e \<Rightarrow> Inl e
         | Inr synth_params' \<Rightarrow>
             split_params_loop rest params_offset params (params_list @ [synth_params']))"

definition split_params ::
  "SynthRegister \<Rightarrow> 'a list list list \<Rightarrow> error + 'a list list list list list" where
  "split_params reg params = split_params_loop (synths reg) 0 params []"


section \<open>Rendering\<close>

subsection \<open>\<open>NoiseBandSynth.__call__\<close>\<close>

text \<open>
  A call mutates the instance, so the model returns the instance after the call beside
  the result; an exception leaves the instance as the statements before it made it.
  \<open>randint\<close> is the value that \<open>torch.randint(0, noisebands.shape[-1], size=(1,))\<close>
  draws; it is read in training mode only.  \<open>torch.randint\<close> rejects an empty range,
  and \<open>math.ceil(n / 0)\<close> raises \<open>ZeroDivisionError\<close>.
\<close>

definition NoiseBandSynth_call ::
  "NoiseBandSynth \<Rightarrow> nat \<Rightarrow> real list list list
     \<Rightarrow> NoiseBandSynth \<times> (error + real list list list)" where
  "NoiseBandSynth_call self randint amplitudes =
     (case interpolate (nbs_resampling_factor self) amplitudes of
        Inl e \<Rightarrow> (self, Inl e)
      | Inr upsampled_amplitudes \<Rightarrow>
          let noisebands = roll_last (- nbs_noisebands_shift self) (nbs_noisebands self)
          in if nbs_training self \<and> dim1 noisebands = 0 then (self, Inl RuntimeError)
             else
               let noisebands =
                     (if nbs_training self then roll_last (int randint) noisebands
                      else noisebands)
               in if dim1 noisebands = 0 then (self, Inl ZeroDivisionError)
                  else
                    let repeats =
                          nat \<lceil>real (dim2 upsampled_amplitudes) / real (dim1 noisebands)\<rceil>;
                        looped_bands = repeat_last repeats noisebands;
                        looped_bands = trim_last (dim2 upsampled_amplitudes) looped_bands;
                        self' = self\<lparr> nbs_noisebands_shift :=
                                  (nbs_noisebands_shift self + int (dim2 upsampled_amplitudes))
                                    mod int (dim1 (nbs_noisebands self)) \<rparr>
                    in (self',
                        case mul3 upsampled_amplitudes [looped_bands] of
                          Inl e \<Rightarrow> Inl e
                        | Inr product \<Rightarrow>
                            Inr (sum_dim1 product)))"

subsection \<open>\<open>NoiseBandNet._synthesize\<close>\<close>

text \<open>
  Of the network only the fields that \<open>_synthesize\<close> reads are kept: the resampling
  factor, the filter bank's noisebands, the stored shift and the training flag.
\<close>

record NoiseBandNet =
  net_resampling_factor :: nat
  net_noisebands :: "real list list"
  net_noisebands_shift :: int
  net_training :: bool

definition NoiseBandNet_synthesize ::
  "NoiseBandNet \<Rightarrow> nat \<Rightarrow> real list list list
     \<Rightarrow> NoiseBandNet \<times> (error + real list list list)" where
  "NoiseBandNet_synthesize self randint amplitudes =
     (case interpolate (net_resampling_factor self) amplitudes of
        Inl e \<Rightarrow> (self, Inl e)
      | Inr upsampled_amplitudes \<Rightarrow>
          let noisebands = roll_last (- net_noisebands_shift self) (net_noisebands self)
          in if net_training self \<and> dim1 noisebands = 0 then (self, Inl RuntimeError)
             else
               let noisebands =
                     (if net_training self then roll_last (int randint) noisebands
                      else noisebands)
               in if dim1 noisebands = 0 then (self, Inl ZeroDivisionError)
                  else
                    let repeats =
                          nat \<lceil>real (dim2 upsampled_amplitudes) / real (dim1 noisebands)\<rceil>;
                        looped_bands = repeat_last repeats noisebands;
                        looped_bands = trim_last (dim2 upsampled_amplitudes) looped_bands;
                        self' = self\<lparr> net_noisebands_shift :=
                                  (net_noisebands_shift self + int (dim2 upsampled_amplitudes))
                                    mod int (dim1 (net_noisebands self)) \<rparr>
                    in (self',
                        case mul3 upsampled_amplitudes [looped_bands] of
                          Inl e \<Rightarrow> Inl e
                        | Inr product \<Rightarrow>
                            Inr (sum_dim1 product)))"

subsection \<open>\<open>SineSynth.__call__\<close>\<close>

text \<open>
  The phases buffer is (re)allocated before the upsampling, and overwritten before the
  final product, so an exception raised later leaves the new buffer in place.
  \<open>HarmonicSynth\<close> inherits the method: it is defined on every extension of the record.
\<close>

definition SineSynth_call ::
  "'a SineSynth_scheme \<Rightarrow> real list list list \<Rightarrow> real list list list
     \<Rightarrow> 'a SineSynth_scheme \<times> (error + real list list list)" where
  "SineSynth_call self0 frequencies amplitudes =
     (let batch_size = dim0 frequencies;
          self =
            (if streaming self0
                \<and> (case phases self0 of None \<Rightarrow> True | Some p \<Rightarrow> dim0 p \<noteq> batch_size)
             then self0\<lparr> phases := Some (replicate batch_size (replicate (n_sines self0) 0)) \<rparr>
             else self0)
      in case interpolate (resampling_factor self) frequencies of
           Inl e \<Rightarrow> (self, Inl e)
         | Inr frequencies' \<Rightarrow>
       (case interpolate (resampling_factor self) amplitudes of
           Inl e \<Rightarrow> (self, Inl e)
         | Inr amplitudes' \<Rightarrow>
             let omegas = map3 (\<lambda>x. x * 2 * pi / real_of_int (fs self)) frequencies';
                 phases0 = map (map cumsum) omegas;
                 phases1 = map3 (\<lambda>x. float_mod x (2 * pi)) phases0
             in if streaming self then
                  (case phases self of
                     None \<Rightarrow> (self, Inl RuntimeError)  \<comment> \<open>not reached: allocated above\<close>
                   | Some carried \<Rightarrow>
                  (case add_phases phases1 carried of
                     Inl e \<Rightarrow> (self, Inl e)
                   | Inr phases2 \<Rightarrow>
                  (case copy_into carried (map (map (\<lambda>x. float_mod x (2 * pi))) (last_step phases2)) of
                     Inl e \<Rightarrow> (self, Inl e)
                   | Inr stored \<Rightarrow>
                       (self\<lparr> phases := Some stored \<rparr>,
                        case mul3 amplitudes' (map3 sin phases2) of
                          Inl e \<Rightarrow> Inl e
                        | Inr product \<Rightarrow> Inr (sum_dim1 product)))))
                else
                  (self,
                   case mul3 amplitudes' (map3 sin phases1) of
                     Inl e \<Rightarrow> Inl e
                   | Inr product \<Rightarrow> Inr (sum_dim1 product))))"

subsection \<open>\<open>HarmonicSynth.__call__\<close>\<close>

text \<open>
  The docstring gives the fundamental as a 2-D tensor (batch, samples); the slot that
  \<open>call_params\<close> declares is 3-D (batch, 1, samples).  Both ranks are inputs of the model.
  A 2-D tensor takes part in a 3-D product as (1, batch, samples).
\<close>

datatype fundamental_tensor =
    Rank2 "real list list"
  | Rank3 "real list list list"

definition harmonics_arange :: "nat \<Rightarrow> real list list list" where
  \<comment> \<open>\<open>torch.arange(1, n + 1).reshape(1, -1, 1)\<close>\<close>
  "harmonics_arange n = [map (\<lambda>h. [real h]) [1..<n + 1]]"

definition harmonic_frequencies ::
  "HarmonicSynth \<Rightarrow> fundamental_tensor \<Rightarrow> error + real list list list" where
  "harmonic_frequencies self fundamental =
     (let harmonics = harmonics_arange (n_harmonics self)
      in case fundamental of
           Rank2 f \<Rightarrow> mul3 [f] harmonics
         | Rank3 f \<Rightarrow> mul3 f harmonics)"

definition HarmonicSynth_call ::
  "HarmonicSynth \<Rightarrow> fundamental_tensor \<Rightarrow> real list list list
     \<Rightarrow> HarmonicSynth \<times> (error + real list list list)" where
  "HarmonicSynth_call self fundamental amplitudes =
     (case harmonic_frequencies self fundamental of
        Inl e \<Rightarrow> (self, Inl e)
      | Inr frequencies \<Rightarrow> SineSynth_call self frequencies amplitudes)"

section \<open>Notions used to state the results\<close>

definition band_sum :: "real list list \<Rightarrow> real list" where
  \<comment> \<open>the sum of the rows of a matrix, as \<open>sum_dim1\<close> computes it for each batch element\<close>
  "band_sum m = foldr (map2 (+)) m (replicate (dim1 m) 0)"

definition band_mix :: "real list list list \<Rightarrow> real list list \<Rightarrow> real list list list" where
  \<comment> \<open>each batch element weighted row by row with \<open>w\<close> and summed over the rows\<close>
  "band_mix u w = map (\<lambda>m. [band_sum (map2 (map2 (*)) m w)]) u"

definition window :: "'a list list \<Rightarrow> nat \<Rightarrow> nat \<Rightarrow> 'a list list" where
  \<comment> \<open>\<open>n\<close> samples of every row read cyclically from position \<open>off\<close>\<close>
  "window nb off n = map (\<lambda>row. map (\<lambda>i. row ! ((i + off) mod length row)) [0..<n]) nb"

definition upsample :: "nat \<Rightarrow> real list list list \<Rightarrow> real list list list" where
  \<comment> \<open>what \<open>interpolate\<close> returns when it accepts its input\<close>
  "upsample r x = map (map (interpolate_row r)) x"

text \<open>
  One oscillator over one call: the phases of its samples, given the phase \<open>c\<close> carried
  in and the phase increments \<open>ws\<close>, and the phase it stores for the next call.
\<close>

definition osc_phase :: "real \<Rightarrow> real list \<Rightarrow> real list" where
  "osc_phase c ws = map (\<lambda>x. float_mod x (2 * pi) + c) (cumsum ws)"

definition osc_carry :: "real \<Rightarrow> real list \<Rightarrow> real" where
  "osc_carry c ws = float_mod (last (osc_phase c ws)) (2 * pi)"

definition sine_phases :: "int \<Rightarrow> real list list list \<Rightarrow> real list list \<Rightarrow> real list list list" where
  \<comment> \<open>the phases of all oscillators of all batch elements, from upsampled frequencies \<open>F\<close>\<close>
  "sine_phases sr F p =
     map2 (map2 (\<lambda>row c. osc_phase c (map (\<lambda>x. x * 2 * pi / real_of_int sr) row))) F p"

definition sine_carry :: "real list list list \<Rightarrow> real list list" where
  "sine_carry P = map (map (\<lambda>row. float_mod (last row) (2 * pi))) P"

definition mix3 :: "real list list list \<Rightarrow> real list list list \<Rightarrow> real list list list" where
  \<comment> \<open>the elementwise product of two tensors of one shape, summed over the channels\<close>
  "mix3 A SP = map (\<lambda>m. [band_sum m]) (map2 (map2 (map2 (*))) A SP)"

text \<open>
  Consecutive calls on a list of (frequencies, amplitudes) chunks, each call starting
  from the instance the previous one left; the chunk signals are returned in order and
  are to be concatenated along time (\<open>cat_last\<close>).
\<close>

fun SineSynth_render_chunks ::
  "'a SineSynth_scheme \<Rightarrow> (real list list list \<times> real list list list) list
     \<Rightarrow> 'a SineSynth_scheme \<times> (error + real list list list list)" where
  "SineSynth_render_chunks self [] = (self, Inr [])"
| "SineSynth_render_chunks self ((f, a) # rest) =
     (case SineSynth_call self f a of
        (self', Inl e) \<Rightarrow> (self', Inl e)
      | (self', Inr signal) \<Rightarrow>
          (case SineSynth_render_chunks self' rest of
             (self'', Inl e) \<Rightarrow> (self'', Inl e)
           | (self'', Inr signals) \<Rightarrow> (self'', Inr (signal # signals))))"

text \<open>
  \<open>upsampling_splits r xs\<close>: at every chunk boundary, upsampling the rest of the
  trajectory in one piece gives the same as upsampling its first chunk and the
  remainder separately.  It holds for \<open>r = 1\<close> and for trajectories constant in time.
\<close>

fun upsampling_splits :: "nat \<Rightarrow> real list list list list \<Rightarrow> bool" where
  "upsampling_splits r [] = True"
| "upsampling_splits r [x] = True"
| "upsampling_splits r (x # rest) =
     (upsample r (cat2 x (cat_last rest)) = cat2 (upsample r x) (upsample r (cat_last rest))
      \<and> upsampling_splits r rest)"

definition chunk_ok :: "nat \<Rightarrow> nat \<Rightarrow> real list list list \<times> real list list list \<Rightarrow> bool" where
  \<comment> \<open>frequencies and amplitudes of one chunk have one shape (B, S, L) with \<open>L > 0\<close>\<close>
  "chunk_ok B S c = (0 < dim2 (fst c) \<and> rect3 B S (dim2 (fst c)) (fst c)
                     \<and> rect3 B S (dim2 (fst c)) (snd c))"

section \<open>Example inputs\<close>

definition single_register :: SynthRegister where
  "single_register = register SynthRegister_init (Sine (SineSynth_init 44100 1 32 False))"

definition example_register :: SynthRegister where
  "example_register =
     register (register SynthRegister_init (Sine (SineSynth_init 44100 1 32 False)))
       (NoiseBand (NoiseBandSynth_init 1 [[0]] 32))"

definition example_synth :: NoiseBandSynth where
  "example_synth =
     (NoiseBandSynth_init 2 [[1, 2, 3, 4], [10, 20, 30, 40]] 2)\<lparr> nbs_training := False \<rparr>"

definition mono_synth :: NoiseBandSynth where
  "mono_synth = (NoiseBandSynth_init 1 [[1, 2, 3, 4]] 2)\<lparr> nbs_training := False \<rparr>"

definition example_net :: NoiseBandNet where
  "example_net =
     \<lparr> net_resampling_factor = 2, net_noisebands = [[1, 2, 3, 4], [10, 20, 30, 40]],
       net_noisebands_shift = 0, net_training = False \<rparr>"

definition quarter_synth :: SineSynth where
  \<comment> \<open>one oscillator; at frequency 1 and sample rate 4 the phase advances by \<open>pi / 2\<close>\<close>
  "quarter_synth = SineSynth_init 4 1 2 True"

definition unit_chunk :: "real list list list \<times> real list list list" where
  "unit_chunk = ([[[1]]], [[[1]]])"

lemmas example_defs =
  single_register_def example_register_def register_def SynthRegister_init_def
  SineSynth_init_def NoiseBandSynth_init_def HarmonicSynth_init_def
  example_synth_def mono_synth_def example_net_def quarter_synth_def unit_chunk_def

lemmas eval_defs =
  NoiseBandSynth_call_def NoiseBandNet_synthesize_def
  interpolate_def interpolate_row_def dim0_def dim1_def dim2_def roll_last_def roll_row_def
  repeat_last_def trim_last_def mul3_def bcast2_def sum_dim1_def Let_def cat2_def
  rotate_def eval_nat_numeral

lemmas sine_eval_defs =
  SineSynth_init_def SineSynth_call_def
  interpolate_def interpolate_row_def dim0_def dim1_def dim2_def Let_def upt_rec
  map3_def cumsum_def add_phases_def bcast2_def copy_into_def expand_def last_step_def
  mul3_def sum_dim1_def

section \<open>Properties of \<open>split_params\<close>\<close>

lemma dim2_slice_last:
  assumes "rect3 b t w params" "0 < b" "0 < t"
  shows "dim2 (slice_last 0 n params) = min n w"
  using assms
  by (cases params; cases "hd params")
     (auto simp: rect3_def rect2_def dim2_def dim1_def slice_last_def)

text \<open>
  What the loop returns on a well-shaped tensor of width \<open>w\<close>: every generator is cut
  from column 0, and the call fails exactly when some generator declares more than
  \<open>w\<close> parameters.
\<close>

lemma split_params_loop_char:
  assumes "rect3 b t w params" "0 < b" "0 < t"
  shows "split_params_loop ss 0 params acc =
     (if list_all (\<lambda>s. total_params s \<le> w) ss
      then Inr (acc @ map (\<lambda>s. split_sections 0 (map snd (call_params s))
                               (slice_last 0 (total_params s) params)) ss)
      else Inl RuntimeError)"
proof (induction ss arbitrary: acc)
  case Nil
  show ?case by simp
next
  case (Cons s ss)
  have d: "dim2 (slice_last 0 (total_params s) params) = min (total_params s) w"
    by (rule dim2_slice_last [OF assms])
  show ?case
  proof (cases "total_params s \<le> w")
    case True
    then show ?thesis
      using Cons.IH [of "acc @ [split_sections 0 (map snd (call_params s))
                               (slice_last 0 (total_params s) params)]"]
      by (simp add: torch_split_def d total_params_def [symmetric] min_def)
  next
    case False
    then show ?thesis
      by (simp add: torch_split_def d total_params_def [symmetric] min_def)
  qed
qed

lemma sum_list_bound_all:
  fixes f :: "'a \<Rightarrow> nat"
  shows "sum_list (map f xs) \<le> w \<Longrightarrow> list_all (\<lambda>x. f x \<le> w) xs"
  by (induction xs) auto

text \<open>
  C1 (parameter round-trip).  Two generators are registered: a sine synth with one
  oscillator (slots \<open>frequencies\<close> and \<open>amplitudes\<close>, one column each) and a noise-band
  synth with one filter (slot \<open>amplitudes\<close>, one column).  The three slot tensors
  \<open>[[[1]]]\<close>, \<open>[[[2]]]\<close>, \<open>[[[3]]]\<close> are concatenated to the flat tensor \<open>[[[1, 2, 3]]]\<close> of
  width \<open>total_params = 3\<close>.  \<open>split_params\<close> hands the second generator column 0 again
  (\<open>[[[1]]]\<close>) instead of its own column 2 (\<open>[[[3]]]\<close>): the round trip does not recover
  the originals, because \<open>params_offset\<close> stays 0.
\<close>

theorem split_params_offset_never_advanced:
  "register_total_params example_register = 3
   \<and> cat_last [[[[1::int]]], [[[2]]], [[[3]]]] = [[[1, 2, 3]]]
   \<and> split_params example_register (cat_last [[[[1::int]]], [[[2]]], [[[3]]]])
       = Inr [[ [[[1]]], [[[2]]] ], [ [[[1]]] ]]
   \<and> split_params example_register (cat_last [[[[1::int]]], [[[2]]], [[[3]]]])
       \<noteq> Inr [[ [[[1]]], [[[2]]] ], [ [[[3]]] ]]"
  by (simp add: example_defs register_total_params_def split_params_def cat2_def
      dim0_def dim1_def dim2_def total_params_def torch_split_def slice_last_def Let_def)

text \<open>
  C4 as stated fails: a register holding one sine synth with one oscillator has
  \<open>total_params = 2\<close>; a flat tensor of width 3 is accepted (the third column is
  dropped), and a flat tensor of width 1 fails with the \<open>RuntimeError\<close> of
  \<open>torch.split\<close>, not with \<open>InvalidShapeError\<close>.
\<close>

theorem split_params_width_counterexample:
  "register_total_params single_register = 2
   \<and> dim2 [[[1::int, 2, 3]]] = 3
   \<and> split_params single_register [[[1::int, 2, 3]]] = Inr [[ [[[1]]], [[[2]]] ]]
   \<and> dim2 [[[1::int]]] = 1
   \<and> split_params single_register [[[1::int]]] = Inl RuntimeError
   \<and> split_params single_register [[[1::int]]] \<noteq> Inl InvalidShapeError"
  by (simp add: example_defs register_total_params_def split_params_def
      dim1_def dim2_def total_params_def torch_split_def slice_last_def Let_def)

text \<open>
  C4, amended.  \<open>split_params\<close> makes no width check of its own.  On a flat tensor of
  shape (b, t, w) with \<open>b, t > 0\<close> it returns the per-generator tuples whenever
  \<open>w \<ge> total_params()\<close> (a wider tensor is accepted); it fails when \<open>w\<close> is less than
  the first registered generator's \<open>total_params\<close>; and a failure is always the
  \<open>RuntimeError\<close> of \<open>torch.split\<close>, never \<open>InvalidShapeError\<close>.
\<close>

theorem split_params_no_width_check:
  assumes "rect3 b t w params" "0 < b" "0 < t"
  shows "(register_total_params reg \<le> w \<longrightarrow> (\<exists>r. split_params reg params = Inr r))
       \<and> (\<forall>g gs. synths reg = g # gs \<and> w < total_params g
             \<longrightarrow> split_params reg params = Inl RuntimeError)
       \<and> (\<forall>e. split_params reg params = Inl e \<longrightarrow> e = RuntimeError)"
proof -
  note char = split_params_loop_char [OF assms, of "synths reg" "[]"]
  have a: "register_total_params reg \<le> w \<longrightarrow> (\<exists>r. split_params reg params = Inr r)"
    using char sum_list_bound_all [of total_params "synths reg" w]
    by (simp add: split_params_def register_total_params_def)
  have b: "\<forall>g gs. synths reg = g # gs \<and> w < total_params g
             \<longrightarrow> split_params reg params = Inl RuntimeError"
    using char by (auto simp: split_params_def)
  have c: "\<forall>e. split_params reg params = Inl e \<longrightarrow> e = RuntimeError"
    using char by (auto simp: split_params_def split: if_splits)
  from a b c show ?thesis by blast
qed

theorem split_params_no_width_check_witness:
  "rect3 1 1 3 [[[1::int, 2, 3]]] \<and> (0::nat) < 1
   \<and> register_total_params single_register \<le> 3
   \<and> (\<exists>r. split_params single_register [[[1::int, 2, 3]]] = Inr r)
   \<and> rect3 1 1 1 [[[1::int]]]
   \<and> split_params single_register [[[1::int]]] = Inl RuntimeError"
proof -
  have r3: "rect3 1 1 3 [[[1::int, 2, 3]]]" and r1: "rect3 1 1 1 [[[1::int]]]"
    by (simp_all add: rect3_def rect2_def)
  have tp: "register_total_params single_register = 2"
    by (simp add: example_defs register_total_params_def total_params_def)
  have sy: "synths single_register = [Sine (SineSynth_init 44100 1 32 False)]"
    by (simp add: example_defs)
  have t1: "total_params (Sine (SineSynth_init 44100 1 32 False)) = 2"
    by (simp add: example_defs total_params_def)
  from split_params_no_width_check [OF r3, of single_register] tp
  have ok: "\<exists>r. split_params single_register [[[1::int, 2, 3]]] = Inr r"
    by simp
  from split_params_no_width_check [OF r1, of single_register] sy t1
  have bad: "split_params single_register [[[1::int]]] = Inl RuntimeError"
    by simp
  from r3 r1 tp ok bad show ?thesis by simp
qed

section \<open>Shapes, upsampling and broadcasting\<close>

lemma length_interpolate_row: "length (interpolate_row r xs) = length xs * r"
  by (simp add: interpolate_row_def)

lemma interpolate_Inr_iff:
  "interpolate r x = Inr u \<longleftrightarrow>
     dim1 x \<noteq> 0 \<and> dim2 x \<noteq> 0 \<and> r \<noteq> 0 \<and> u = map (map (interpolate_row r)) x"
  by (auto simp: interpolate_def)

lemma dim2_interpolate:
  assumes "interpolate r x = Inr u"
  shows "dim2 u = dim2 x * r"
proof -
  from assms have d: "dim1 x \<noteq> 0" and u: "u = map (map (interpolate_row r)) x"
    by (simp_all add: interpolate_Inr_iff)
  from d obtain m ms where x: "x = m # ms" by (cases x) (auto simp: dim1_def)
  with d obtain row rows where m: "m = row # rows" by (cases m) (auto simp: dim1_def)
  show ?thesis by (simp add: u x m dim2_def dim1_def length_interpolate_row)
qed

lemma dim1_roll_last: "dim1 (roll_last k t) = dim1 t"
  by (cases t) (auto simp: dim1_def roll_last_def roll_row_def)


lemma sequence_map_Inr:
  assumes "\<And>x. x \<in> set xs \<Longrightarrow> f x = Inr (g x)"
  shows "sequence (map f xs) = Inr (map g xs)"
  using assms by (induction xs) simp_all

lemma bcast2_same_length:
  assumes "length xs = length ys"
    and "\<And>x y. (x, y) \<in> set (zip xs ys) \<Longrightarrow> f x y = Inr (g x y)"
  shows "bcast2 f xs ys = Inr (map2 g xs ys)"
proof -
  have "sequence (map (\<lambda>(x, y). f x y) (zip xs ys)) = Inr (map (\<lambda>(x, y). g x y) (zip xs ys))"
    by (rule sequence_map_Inr) (use assms(2) in auto)
  with assms(1) show ?thesis by (simp add: bcast2_def)
qed

lemma bcast2_right_single:
  assumes "\<And>x. x \<in> set xs \<Longrightarrow> f x y = Inr (g x y)"
  shows "bcast2 f xs [y] = Inr (map (\<lambda>x. g x y) xs)"
proof (cases "length xs = 1")
  case True
  then obtain x where xs: "xs = [x]" by (cases xs) auto
  with assms show ?thesis by (simp add: bcast2_def)
next
  case False
  have "sequence (map (\<lambda>x. f x y) xs) = Inr (map (\<lambda>x. g x y) xs)"
    by (rule sequence_map_Inr) (use assms in auto)
  with False show ?thesis by (simp add: bcast2_def)
qed

lemma rect2_row: "rect2 r c t \<Longrightarrow> row \<in> set t \<Longrightarrow> length row = c"
  by (simp add: rect2_def list_all_iff)

lemma rect3_mat: "rect3 b c n t \<Longrightarrow> m \<in> set t \<Longrightarrow> rect2 c n m"
  by (simp add: rect3_def list_all_iff)

lemma mul_rows:
  assumes "length xs = length ys"
  shows "bcast2 (\<lambda>x y. Inr (x * y)) xs ys = Inr (map2 (*) xs (ys :: real list))"
  using assms by (rule bcast2_same_length) simp

lemma mul_mats:
  assumes "rect2 F T m" "rect2 F T w"
  shows "bcast2 (bcast2 (\<lambda>x y. Inr (x * y))) m w = Inr (map2 (map2 (*)) m (w :: real list list))"
proof (rule bcast2_same_length)
  show "length m = length w" using assms by (simp add: rect2_def)
next
  fix x y assume "(x, y) \<in> set (zip m w)"
  then have "x \<in> set m" "y \<in> set w" by (auto dest: set_zip_leftD set_zip_rightD)
  with assms have "length x = length y" by (simp add: rect2_row)
  then show "bcast2 (\<lambda>x y. Inr (x * y)) x y = Inr (map2 (*) x y)" by (rule mul_rows)
qed

lemma mul3_bands:
  assumes "rect3 B F T u" "rect2 F T w"
  shows "mul3 u [w] = Inr (map (\<lambda>m. map2 (map2 (*)) m w) u)"
  unfolding mul3_def
  by (rule bcast2_right_single) (use assms in \<open>auto intro: mul_mats dest: rect3_mat\<close>)

lemma mul3_same_shape:
  assumes "rect3 B F T u" "rect3 B F T v"
  shows "mul3 u v = Inr (map2 (map2 (map2 (*))) u v)"
  unfolding mul3_def
proof (rule bcast2_same_length)
  show "length u = length v" using assms by (simp add: rect3_def)
next
  fix x y assume "(x, y) \<in> set (zip u v)"
  then have "x \<in> set u" "y \<in> set v" by (auto dest: set_zip_leftD set_zip_rightD)
  with assms have "rect2 F T x" "rect2 F T y" by (auto dest: rect3_mat)
  then show "bcast2 (bcast2 (\<lambda>x y. Inr (x * y))) x y = Inr (map2 (map2 (*)) x y)"
    by (rule mul_mats)
qed




lemma length_foldr_add:
  assumes "list_all (\<lambda>r. length r = T) m"
  shows "length (foldr (map2 (+)) m (replicate T (0::real))) = T"
  using assms by (induction m) simp_all

lemma foldr_add_append:
  assumes "length m1 = length m2"
    and "list_all (\<lambda>r. length r = T1) m1"
    and "list_all (\<lambda>r. length r = T2) m2"
  shows "foldr (map2 (+)) (map2 (@) m1 m2) (replicate (T1 + T2) (0::real)) =
         foldr (map2 (+)) m1 (replicate T1 0) @ foldr (map2 (+)) m2 (replicate T2 0)"
  using assms
proof (induction m1 m2 rule: list_induct2)
  case Nil
  show ?case by (simp add: replicate_add)
next
  case (Cons r1 m1 r2 m2)
  then have ih: "foldr (map2 (+)) (map2 (@) m1 m2) (replicate (T1 + T2) (0::real)) =
         foldr (map2 (+)) m1 (replicate T1 0) @ foldr (map2 (+)) m2 (replicate T2 0)"
    by simp
  have l: "length (foldr (map2 (+)) m1 (replicate T1 (0::real))) = length r1"
    using Cons.prems by (simp add: length_foldr_add)
  show ?case using l by (simp add: ih)
qed

lemma dim1_rect2: "rect2 F T m \<Longrightarrow> 0 < F \<Longrightarrow> dim1 m = T"
  by (cases m) (auto simp: rect2_def dim1_def)

lemma dim2_rect3: "rect3 B F T u \<Longrightarrow> 0 < B \<Longrightarrow> 0 < F \<Longrightarrow> dim2 u = T"
  by (cases u) (auto simp: rect3_def dim2_def dim1_rect2)

lemma rect2_append:
  assumes "rect2 F T1 m1" "rect2 F T2 m2"
  shows "rect2 F (T1 + T2) (map2 (@) m1 m2)"
proof -
  have "length a + length b = T1 + T2" if "(a, b) \<in> set (zip m1 m2)" for a b
  proof -
    from that have "a \<in> set m1" "b \<in> set m2"
      by (auto dest: set_zip_leftD set_zip_rightD)
    with assms show ?thesis by (simp add: rect2_def list_all_iff)
  qed
  with assms show ?thesis by (auto simp: rect2_def list_all_iff)
qed

section \<open>The window of noise bands a call reads\<close>

lemma nth_concat_replicate:
  assumes "i < k * length xs"
  shows "concat (replicate k xs) ! i = xs ! (i mod length xs)"
  using assms
proof (induction k arbitrary: i)
  case 0
  then show ?case by simp
next
  case (Suc k)
  show ?case
  proof (cases "i < length xs")
    case True
    then show ?thesis by (simp add: nth_append)
  next
    case False
    with Suc.prems have "i - length xs < k * length xs" by simp
    from Suc.IH [OF this] False show ?thesis
      by (simp add: nth_append le_mod_geq)
  qed
qed

lemma take_concat_replicate:
  assumes "n \<le> k * length xs"
  shows "take n (concat (replicate k xs)) = map (\<lambda>i. xs ! (i mod length xs)) [0..<n]"
proof (rule nth_equalityI)
  show "length (take n (concat (replicate k xs))) = length (map (\<lambda>i. xs ! (i mod length xs)) [0..<n])"
    using assms by (simp add: length_concat sum_list_replicate)
next
  fix i assume "i < length (take n (concat (replicate k xs)))"
  then have "i < n" by simp
  with assms have "i < k * length xs" by simp
  from nth_concat_replicate [OF this] \<open>i < n\<close>
  show "take n (concat (replicate k xs)) ! i = map (\<lambda>i. xs ! (i mod length xs)) [0..<n] ! i"
    by simp
qed

lemma repeats_cover:
  assumes "0 < N"
  shows "n \<le> nat \<lceil>real n / real N\<rceil> * N"
proof -
  define k where "k = nat \<lceil>real n / real N\<rceil>"
  have "0 \<le> real n / real N" by simp
  then have "0 \<le> \<lceil>real n / real N\<rceil>"
    by (simp add: zero_le_ceiling del: divide_nonneg_nonneg)
  then have "real_of_int \<lceil>real n / real N\<rceil> = real k"
    unfolding k_def by simp
  moreover have "real n / real N \<le> real_of_int \<lceil>real n / real N\<rceil>"
    by (rule le_of_int_ceiling)
  ultimately have "real n / real N \<le> real k" by (simp only:)
  with assms have "real n \<le> real k * real N"
    by (simp only: pos_divide_le_eq of_nat_0_less_iff)
  then have "real n \<le> real (k * N)" by (simp only: of_nat_mult)
  then have "n \<le> k * N" by (simp only: of_nat_le_iff)
  then show ?thesis unfolding k_def .
qed

lemma looped_row:
  assumes "length row = N" "0 < N"
  shows "take n (concat (replicate (nat \<lceil>real n / real N\<rceil>) (roll_row (- off) row))) =
         map (\<lambda>i. row ! ((i + nat (off mod int N)) mod N)) [0..<n]"
proof -
  let ?m = "nat (off mod int N)"
  have ne: "row \<noteq> []" using assms by auto
  have r: "roll_row (- off) row = rotate ?m row"
    using ne assms by (simp add: roll_row_def)
  have "take n (concat (replicate (nat \<lceil>real n / real N\<rceil>) (rotate ?m row))) =
        map (\<lambda>i. rotate ?m row ! (i mod length (rotate ?m row))) [0..<n]"
    by (rule take_concat_replicate) (simp add: assms repeats_cover)
  also have "\<dots> = map (\<lambda>i. row ! ((i + ?m) mod N)) [0..<n]"
    using assms by (simp add: nth_rotate mod_add_left_eq add.commute)
  finally show ?thesis by (simp add: r)
qed

lemma looped_bands_window:
  assumes "rect2 F N nb" "0 < N"
  shows "trim_last n (repeat_last (nat \<lceil>real n / real N\<rceil>) (roll_last (- off) nb)) =
         window nb (nat (off mod int N)) n"
proof -
  have "take n (concat (replicate (nat \<lceil>real n / real N\<rceil>) (roll_row (- off) row))) =
        map (\<lambda>i. row ! ((i + nat (off mod int N)) mod length row)) [0..<n]"
    if "row \<in> set nb" for row
  proof -
    from that assms have "length row = N" by (simp add: rect2_def list_all_iff)
    with looped_row [OF this assms(2)] show ?thesis by simp
  qed
  then show ?thesis
    by (simp add: trim_last_def repeat_last_def roll_last_def window_def)
qed

lemma window_row_append:
  assumes "length row = N" "0 < N" "0 \<le> off" 
  shows "map (\<lambda>i. row ! ((i + nat off) mod N)) [0..<n1 + n2] =
         map (\<lambda>i. row ! ((i + nat off) mod N)) [0..<n1] @
         map (\<lambda>i. row ! ((i + nat ((off + int n1) mod int N)) mod N)) [0..<n2]"
proof -
  have e: "(i + n1 + nat off) mod N = (i + nat ((off + int n1) mod int N)) mod N" for i
  proof -
    have "nat ((off + int n1) mod int N) = (nat off + n1) mod N"
      using assms by (simp add: nat_mod_distrib nat_add_distrib)
    then have "(i + nat ((off + int n1) mod int N)) mod N = (i + (nat off + n1)) mod N"
      by (simp only: mod_add_right_eq)
    then show ?thesis by (simp only: ac_simps)
  qed
  have "[0..<n1 + n2] = [0..<n1] @ [n1..<n1 + n2]"
    by (rule upt_add_eq_append) simp
  moreover have "map (\<lambda>i. i + n1) [0..<n2] = [n1..<n1 + n2]"
    by (simp only: map_add_upt add.commute [of n1 n2])
  ultimately have "[0..<n1 + n2] = [0..<n1] @ map (\<lambda>i. i + n1) [0..<n2]"
    by (simp only:)
  then have "map (\<lambda>i. row ! ((i + nat off) mod N)) [0..<n1 + n2] =
         map (\<lambda>i. row ! ((i + nat off) mod N)) [0..<n1] @
         map (\<lambda>i. row ! ((i + n1 + nat off) mod N)) [0..<n2]"
    by (simp add: o_def)
  then show ?thesis by (simp only: e)
qed

lemma rect2_mul:
  assumes "rect2 F T m" "rect2 F T w"
  shows "rect2 F T (map2 (map2 (*)) m (w :: real list list))"
proof -
  have "length (map2 (*) a b) = T" if "(a, b) \<in> set (zip m w)" for a b
  proof -
    from that have "a \<in> set m" "b \<in> set w"
      by (auto dest: set_zip_leftD set_zip_rightD)
    with assms show ?thesis by (simp add: rect2_def list_all_iff)
  qed
  with assms show ?thesis by (auto simp: rect2_def list_all_iff)
qed

lemma prod_append:
  assumes "rect2 F T1 m1" "rect2 F T2 m2" "rect2 F T1 w1" "rect2 F T2 w2"
  shows "map2 (map2 (*)) (map2 (@) m1 m2) (map2 (@) w1 w2) =
         map2 (@) (map2 (map2 (*)) m1 w1) (map2 (map2 (*)) m2 (w2 :: real list list))"
proof (rule nth_equalityI)
  show "length (map2 (map2 (*)) (map2 (@) m1 m2) (map2 (@) w1 w2)) =
        length (map2 (@) (map2 (map2 (*)) m1 w1) (map2 (map2 (*)) m2 w2))"
    using assms by (simp add: rect2_def)
next
  fix i assume "i < length (map2 (map2 (*)) (map2 (@) m1 m2) (map2 (@) w1 w2))"
  then have i: "i < F" using assms by (simp add: rect2_def)
  then have "length (m1 ! i) = length (w1 ! i)"
    using assms by (simp add: rect2_def list_all_length)
  with i show "map2 (map2 (*)) (map2 (@) m1 m2) (map2 (@) w1 w2) ! i =
        map2 (@) (map2 (map2 (*)) m1 w1) (map2 (map2 (*)) m2 w2) ! i"
    using assms by (simp add: rect2_def)
qed

lemma band_sum_append:
  assumes "rect2 F T1 m1" "rect2 F T2 m2" "rect2 F T1 w1" "rect2 F T2 w2" "0 < F"
  shows "band_sum (map2 (map2 (*)) (map2 (@) m1 m2) (map2 (@) w1 w2)) =
         band_sum (map2 (map2 (*)) m1 w1) @ band_sum (map2 (map2 (*)) m2 w2)"
proof -
  let ?p1 = "map2 (map2 (*)) m1 w1" and ?p2 = "map2 (map2 (*)) m2 w2"
  have r1: "rect2 F T1 ?p1" and r2: "rect2 F T2 ?p2"
    using assms by (simp_all add: rect2_mul)
  have r: "rect2 F (T1 + T2) (map2 (@) ?p1 ?p2)" using r1 r2 by (rule rect2_append)
  have "band_sum (map2 (@) ?p1 ?p2) = band_sum ?p1 @ band_sum ?p2"
    using r1 r2 foldr_add_append [of ?p1 ?p2 T1 T2]
    by (simp add: band_sum_def dim1_rect2 [OF r assms(5)] dim1_rect2 [OF r1 assms(5)]
        dim1_rect2 [OF r2 assms(5)]) (simp add: rect2_def)
  then show ?thesis by (simp add: prod_append [OF assms(1-4)])
qed

lemma band_mix_cat2:
  assumes "rect3 B F T1 u1" "rect3 B F T2 u2" "rect2 F T1 w1" "rect2 F T2 w2" "0 < F"
  shows "band_mix (cat2 u1 u2) (map2 (@) w1 w2) = cat2 (band_mix u1 w1) (band_mix u2 w2)"
proof -
  have len: "length u1 = length u2" using assms by (simp add: rect3_def)
  have a1: "list_all (rect2 F T1) u1" and a2: "list_all (rect2 F T2) u2"
    using assms by (simp_all add: rect3_def)
  from len a1 a2 show ?thesis
  proof (induction u1 u2 rule: list_induct2)
    case Nil
    show ?case by (simp add: band_mix_def cat2_def)
  next
    case (Cons m1 u1 m2 u2)
    then have ih: "band_mix (cat2 u1 u2) (map2 (@) w1 w2) = cat2 (band_mix u1 w1) (band_mix u2 w2)"
      by simp
    have "band_sum (map2 (map2 (*)) (map2 (@) m1 m2) (map2 (@) w1 w2)) =
         band_sum (map2 (map2 (*)) m1 w1) @ band_sum (map2 (map2 (*)) m2 w2)"
      using Cons.prems assms(3-5) by (intro band_sum_append) simp_all
    with ih show ?case by (simp add: band_mix_def cat2_def)
  qed
qed

lemma rect2_window: "length nb = F \<Longrightarrow> rect2 F n (window nb off n)"
  by (simp add: rect2_def window_def list_all_iff)

lemma window_append:
  assumes "rect2 F N nb" "0 < N" "0 \<le> off"
  shows "window nb (nat off) (n1 + n2) =
         map2 (@) (window nb (nat off) n1) (window nb (nat ((off + int n1) mod int N)) n2)"
proof -
  have "map (\<lambda>i. row ! ((i + nat off) mod length row)) [0..<n1 + n2] =
        map (\<lambda>i. row ! ((i + nat off) mod length row)) [0..<n1] @
        map (\<lambda>i. row ! ((i + nat ((off + int n1) mod int N)) mod length row)) [0..<n2]"
    if "row \<in> set nb" for row
  proof -
    from that assms have "length row = N" by (simp add: rect2_row)
    with window_row_append [OF this assms(2,3)] show ?thesis by simp
  qed
  then show ?thesis
    by (simp add: window_def zip_map_map zip_same_conv_map)
qed

lemma noise_call_eval:
  assumes "\<not> nbs_training self" 
    and "rect2 F N (nbs_noisebands self)" "0 < F" "0 < N"
    and "interpolate (nbs_resampling_factor self) amplitudes = Inr u"
    and "rect3 B F T u" "0 < B"
  shows "NoiseBandSynth_call self randint amplitudes =
     (self\<lparr> nbs_noisebands_shift := (nbs_noisebands_shift self + int T) mod int N \<rparr>,
      Inr (band_mix u (window (nbs_noisebands self) (nat (nbs_noisebands_shift self mod int N)) T)))"
proof -
  have dN: "dim1 (nbs_noisebands self) = N" using assms(2,3) by (rule dim1_rect2)
  have dT: "dim2 u = T" using assms(6,7,3) by (rule dim2_rect3)
  have w: "trim_last T (repeat_last (nat \<lceil>real T / real N\<rceil>)
              (roll_last (- nbs_noisebands_shift self) (nbs_noisebands self))) =
           window (nbs_noisebands self) (nat (nbs_noisebands_shift self mod int N)) T"
    using assms(2,4) by (rule looped_bands_window)
  have "rect2 F T (window (nbs_noisebands self) (nat (nbs_noisebands_shift self mod int N)) T)"
    using assms(2) by (intro rect2_window) (simp add: rect2_def)
  from mul3_bands [OF assms(6) this] 
  show ?thesis
    using assms(1,4,5)
    by (simp add: NoiseBandSynth_call_def dim1_roll_last dN dT w Let_def band_mix_def
        sum_dim1_def band_sum_def o_def)
qed

lemma rect3_interpolate:
  assumes "rect3 B F L a"
  shows "rect3 B F (L * r) (map (map (interpolate_row r)) a)"
  using assms
  by (simp add: rect3_def rect2_def list_all_iff length_interpolate_row)

lemma rect3_cat2:
  assumes "rect3 B F T1 u1" "rect3 B F T2 u2"
  shows "rect3 B F (T1 + T2) (cat2 u1 u2)"
proof -
  have "rect2 F (T1 + T2) (map2 (@) a b)" if "(a, b) \<in> set (zip u1 u2)" for a b
  proof -
    from that have "a \<in> set u1" "b \<in> set u2"
      by (auto dest: set_zip_leftD set_zip_rightD)
    with assms show ?thesis by (auto intro: rect2_append dest: rect3_mat)
  qed
  with assms show ?thesis by (auto simp: rect3_def cat2_def list_all_iff)
qed

section \<open>Noise-band continuity\<close>

lemma ceiling_half: "\<lceil>(1::real) / 2\<rceil> = 1"
  by (rule ceiling_unique) simp_all

text \<open>
  C2 as stated fails.  One filter with the band \<open>[1, 2, 3, 4]\<close>, resampling factor 2,
  evaluation mode, read offset 0.  The amplitude trajectory \<open>[0, 1]\<close> rendered in one
  call is upsampled to \<open>[0, 1/4, 3/4, 1]\<close> and gives \<open>[0, 1/2, 9/4, 4]\<close>.  Rendered as
  the chunks \<open>[0]\<close> and \<open>[1]\<close>, each chunk is upsampled on its own, to \<open>[0, 0]\<close> and
  \<open>[1, 1]\<close>, and the two outputs are \<open>[0, 0]\<close> and \<open>[3, 4]\<close>.  The read offset is
  carried over correctly (2 after the first chunk, 0 after the second, 0 after the
  single call); the signals differ because linear upsampling clamps at the edges
  of every chunk.
\<close>

theorem noise_continuity_counterexample:
  "NoiseBandSynth_call mono_synth 0 (cat2 [[[0]]] [[[1]]]) =
     (mono_synth\<lparr> nbs_noisebands_shift := 0 \<rparr>, Inr [[[0, 1 / 2, 9 / 4, 4]]])
   \<and> NoiseBandSynth_call mono_synth 0 [[[0]]] =
     (mono_synth\<lparr> nbs_noisebands_shift := 2 \<rparr>, Inr [[[0, 0]]])
   \<and> NoiseBandSynth_call (mono_synth\<lparr> nbs_noisebands_shift := 2 \<rparr>) 0 [[[1]]] =
     (mono_synth\<lparr> nbs_noisebands_shift := 0 \<rparr>, Inr [[[3, 4]]])
   \<and> cat2 [[[0, 0]]] [[[3, 4]]] \<noteq> [[[0, 1 / 2, 9 / 4, 4 :: real]]]"
  by (simp add: example_defs eval_defs upt_rec ceiling_half)

text \<open>
  C2, amended.  A \<open>NoiseBandSynth\<close> in evaluation mode whose noisebands have shape (F, N)
  with \<open>F, N > 0\<close> renders two amplitude chunks of shapes (B, F, L1) and (B, F, L2).
  Provided that upsampling the concatenated trajectory gives the concatenation of the
  two upsampled chunks (as it does for resampling factor 1 and for trajectories that
  are constant in time), the single call returns exactly the concatenation of the
  outputs of the two consecutive calls, and it leaves the same read offset.
\<close>

theorem noise_continuity:
  assumes nt: "\<not> nbs_training self"
    and nb: "rect2 F N (nbs_noisebands self)" "0 < F" "0 < N"
    and sh: "rect3 B F L1 a1" "rect3 B F L2 a2" "0 < B"
    and up1: "interpolate (nbs_resampling_factor self) a1 = Inr u1"
    and up2: "interpolate (nbs_resampling_factor self) a2 = Inr u2"
    and up: "interpolate (nbs_resampling_factor self) (cat2 a1 a2) = Inr (cat2 u1 u2)"
  shows "fst (NoiseBandSynth_call self k (cat2 a1 a2)) =
           fst (NoiseBandSynth_call (fst (NoiseBandSynth_call self k1 a1)) k2 a2)
       \<and> (\<exists>sig1 sig2.
            snd (NoiseBandSynth_call self k1 a1) = Inr sig1
          \<and> snd (NoiseBandSynth_call (fst (NoiseBandSynth_call self k1 a1)) k2 a2) = Inr sig2
          \<and> snd (NoiseBandSynth_call self k (cat2 a1 a2)) = Inr (cat2 sig1 sig2))"
proof -
  let ?r = "nbs_resampling_factor self" and ?nb = "nbs_noisebands self"
  let ?o = "nbs_noisebands_shift self"
  let ?T1 = "L1 * ?r" and ?T2 = "L2 * ?r"
  let ?o1 = "(?o + int ?T1) mod int N"
  let ?s1 = "self\<lparr> nbs_noisebands_shift := ?o1 \<rparr>"
  let ?w1 = "window ?nb (nat (?o mod int N)) ?T1"
  let ?w2 = "window ?nb (nat ?o1) ?T2"
  have u1: "rect3 B F ?T1 u1" using up1 sh(1) by (auto simp: interpolate_Inr_iff rect3_interpolate)
  have u2: "rect3 B F ?T2 u2" using up2 sh(2) by (auto simp: interpolate_Inr_iff rect3_interpolate)
  have u: "rect3 B F (?T1 + ?T2) (cat2 u1 u2)" using u1 u2 by (rule rect3_cat2)
  have c1: "NoiseBandSynth_call self k1 a1 = (?s1, Inr (band_mix u1 ?w1))"
    using noise_call_eval [OF nt nb up1 u1 sh(3)] by simp
  have "NoiseBandSynth_call ?s1 k2 a2 =
          (?s1\<lparr> nbs_noisebands_shift := (?o1 + int ?T2) mod int N \<rparr>,
           Inr (band_mix u2 (window ?nb (nat (?o1 mod int N)) ?T2)))"
    using noise_call_eval [of ?s1 F N a2 u2 B ?T2 k2] nt nb up2 u2 sh(3) by simp
  then have c2: "NoiseBandSynth_call ?s1 k2 a2 =
          (self\<lparr> nbs_noisebands_shift := (?o + int (?T1 + ?T2)) mod int N \<rparr>,
           Inr (band_mix u2 ?w2))"
    by (simp add: mod_add_left_eq add.assoc)
  have c: "NoiseBandSynth_call self k (cat2 a1 a2) =
          (self\<lparr> nbs_noisebands_shift := (?o + int (?T1 + ?T2)) mod int N \<rparr>,
           Inr (band_mix (cat2 u1 u2) (window ?nb (nat (?o mod int N)) (?T1 + ?T2))))"
    using noise_call_eval [OF nt nb up u sh(3)] by simp
  have "window ?nb (nat (?o mod int N)) (?T1 + ?T2) =
          map2 (@) ?w1 (window ?nb (nat ((?o mod int N + int ?T1) mod int N)) ?T2)"
    using nb(1,3) by (intro window_append) simp_all
  then have w: "window ?nb (nat (?o mod int N)) (?T1 + ?T2) = map2 (@) ?w1 ?w2"
    by (simp add: mod_add_left_eq)
  have lenF: "length ?nb = F" using nb(1) by (simp add: rect2_def)
  have r1: "rect2 F ?T1 ?w1" and r2: "rect2 F ?T2 ?w2"
    by (rule rect2_window [OF lenF])+
  have "band_mix (cat2 u1 u2) (map2 (@) ?w1 ?w2) = cat2 (band_mix u1 ?w1) (band_mix u2 ?w2)"
    using u1 u2 r1 r2 nb(2) by (rule band_mix_cat2)
  with c w have c': "NoiseBandSynth_call self k (cat2 a1 a2) =
          (self\<lparr> nbs_noisebands_shift := (?o + int (?T1 + ?T2)) mod int N \<rparr>,
           Inr (cat2 (band_mix u1 ?w1) (band_mix u2 ?w2)))"
    by simp
  show ?thesis unfolding c1 c' fst_conv snd_conv c2 by blast
qed

theorem noise_continuity_witness:
  "\<not> nbs_training example_synth
   \<and> rect2 2 4 (nbs_noisebands example_synth)
   \<and> rect3 1 2 1 [[[1::real], [2]]]
   \<and> interpolate (nbs_resampling_factor example_synth) [[[1], [2]]] = Inr [[[1, 1], [2, 2]]]
   \<and> interpolate (nbs_resampling_factor example_synth) (cat2 [[[1], [2]]] [[[1], [2]]])
        = Inr (cat2 [[[1, 1], [2, 2]]] [[[1, 1], [2, 2]]])
   \<and> snd (NoiseBandSynth_call example_synth 0 [[[1], [2]]]) = Inr [[[21, 42]]]
   \<and> snd (NoiseBandSynth_call (fst (NoiseBandSynth_call example_synth 0 [[[1], [2]]])) 0
             [[[1], [2]]]) = Inr [[[63, 84]]]
   \<and> snd (NoiseBandSynth_call example_synth 0 (cat2 [[[1], [2]]] [[[1], [2]]]))
        = Inr (cat2 [[[21, 42]]] [[[63, 84]]])"
proof -
  have nt: "\<not> nbs_training example_synth" by (simp add: example_defs)
  have nb: "rect2 2 4 (nbs_noisebands example_synth)"
    by (simp add: example_defs rect2_def)
  have sh: "rect3 1 2 1 [[[1::real], [2]]]" by (simp add: rect3_def rect2_def)
  have up1: "interpolate (nbs_resampling_factor example_synth) [[[1], [2]]]
               = Inr [[[1, 1], [2, 2]]]"
    by (simp add: example_defs eval_defs upt_rec)
  have up: "interpolate (nbs_resampling_factor example_synth) (cat2 [[[1], [2]]] [[[1], [2]]])
        = Inr (cat2 [[[1, 1], [2, 2]]] [[[1, 1], [2, 2]]])"
    by (simp add: example_defs eval_defs upt_rec)
  have c1: "NoiseBandSynth_call example_synth 0 [[[1], [2]]] =
     (example_synth\<lparr> nbs_noisebands_shift := 2 \<rparr>, Inr [[[21, 42]]])"
    by (simp add: example_defs eval_defs upt_rec ceiling_half)
  have c2: "NoiseBandSynth_call (example_synth\<lparr> nbs_noisebands_shift := 2 \<rparr>) 0 [[[1], [2]]] =
     (example_synth\<lparr> nbs_noisebands_shift := 0 \<rparr>, Inr [[[63, 84]]])"
    by (simp add: example_defs eval_defs upt_rec ceiling_half)
  from noise_continuity [OF nt nb _ _ sh sh _ up1 up1 up, of 0 0 0]
  have "snd (NoiseBandSynth_call example_synth 0 (cat2 [[[1], [2]]] [[[1], [2]]]))
        = Inr (cat2 [[[21, 42]]] [[[63, 84]]])"
    by (simp add: c1 c2)
  with nt nb sh up1 up c1 c2 show ?thesis by simp
qed

section \<open>The read offset\<close>

text \<open>
  C7.  After a call that returns a signal, the stored shift is the previous shift plus
  the upsampled length (control length times resampling factor), modulo the band
  length, and so lies in \<open>[0, band length)\<close>.  A call that raises keeps a shift that
  was in this range inside it.  The shift after a call is the same in training and in
  evaluation mode, whatever the random rotation drawn in training mode.
\<close>

theorem read_offset_invariant:
  "(snd (NoiseBandSynth_call self randint amplitudes) = Inr signal \<longrightarrow>
      nbs_noisebands_shift (fst (NoiseBandSynth_call self randint amplitudes)) =
        (nbs_noisebands_shift self + int (dim2 amplitudes * nbs_resampling_factor self))
          mod int (dim1 (nbs_noisebands self))
      \<and> 0 \<le> nbs_noisebands_shift (fst (NoiseBandSynth_call self randint amplitudes))
      \<and> nbs_noisebands_shift (fst (NoiseBandSynth_call self randint amplitudes))
          < int (dim1 (nbs_noisebands self)))
   \<and> (0 \<le> nbs_noisebands_shift self
        \<and> nbs_noisebands_shift self < int (dim1 (nbs_noisebands self)) \<longrightarrow>
      0 \<le> nbs_noisebands_shift (fst (NoiseBandSynth_call self randint amplitudes))
      \<and> nbs_noisebands_shift (fst (NoiseBandSynth_call self randint amplitudes))
          < int (dim1 (nbs_noisebands self)))
   \<and> nbs_noisebands_shift
        (fst (NoiseBandSynth_call (self\<lparr>nbs_training := True\<rparr>) drawn amplitudes)) =
      nbs_noisebands_shift
        (fst (NoiseBandSynth_call (self\<lparr>nbs_training := False\<rparr>) drawn' amplitudes))"
proof (cases "interpolate (nbs_resampling_factor self) amplitudes")
  case (Inl e)
  then show ?thesis by (simp add: NoiseBandSynth_call_def)
next
  case (Inr u)
  note d = dim2_interpolate [OF Inr]
  show ?thesis
  proof (cases "dim1 (nbs_noisebands self) = 0")
    case True
    then show ?thesis using Inr by (simp add: NoiseBandSynth_call_def dim1_roll_last Let_def)
  next
    case False
    then show ?thesis using Inr d
      by (simp add: NoiseBandSynth_call_def dim1_roll_last Let_def)
  qed
qed

theorem read_offset_invariant_witness:
  "snd (NoiseBandSynth_call (example_synth\<lparr> nbs_noisebands_shift := 3 \<rparr>) 0 [[[1], [2]]])
     = Inr [[[84, 21]]]
   \<and> (0::int) \<le> 3 \<and> (3::int) < int (dim1 (nbs_noisebands example_synth))
   \<and> nbs_noisebands_shift
        (fst (NoiseBandSynth_call (example_synth\<lparr> nbs_noisebands_shift := 3 \<rparr>) 0 [[[1], [2]]]))
       = (3 + int (1 * 2)) mod 4
   \<and> nbs_noisebands_shift
        (fst (NoiseBandSynth_call (example_synth\<lparr> nbs_noisebands_shift := 3 \<rparr>) 0 [[[1], [2]]]))
       = 1
   \<and> nbs_noisebands_shift
        (fst (NoiseBandSynth_call
               (example_synth\<lparr> nbs_noisebands_shift := 3, nbs_training := True \<rparr>) 2
               [[[1], [2]]]))
       = 1"
proof -
  let ?s = "example_synth\<lparr> nbs_noisebands_shift := 3 \<rparr>"
  have ok: "snd (NoiseBandSynth_call ?s 0 [[[1], [2]]]) = Inr [[[84, 21]]]"
    by (simp add: example_defs eval_defs upt_rec ceiling_half)
  have d: "dim1 (nbs_noisebands example_synth) = 4" "dim2 [[[1::real], [2]]] = 1"
    by (simp_all add: example_defs dim1_def dim2_def)
  have f: "?s\<lparr> nbs_training := False \<rparr> = ?s"
    "?s\<lparr> nbs_training := True \<rparr>
       = example_synth\<lparr> nbs_noisebands_shift := 3, nbs_training := True \<rparr>"
    by (simp_all add: example_defs)
  from read_offset_invariant [of ?s 0 "[[[1], [2]]]" "[[[84, 21]]]" 2 0] ok d f
  show ?thesis by (simp add: example_defs)
qed

section \<open>The two noise-band synthesis paths\<close>

text \<open>
  C8.  \<open>NoiseBandNet._synthesize\<close> and \<open>NoiseBandSynth.__call__\<close>, started with the same
  noisebands, stored shift, resampling factor and mode (and, in training mode, the
  same random draw), return the same result and leave the same stored shift; the
  other fields stay equal as well.
\<close>

theorem synthesize_equivalent:
  assumes "net_resampling_factor net = nbs_resampling_factor syn"
    and "net_noisebands net = nbs_noisebands syn"
    and "net_noisebands_shift net = nbs_noisebands_shift syn"
    and "net_training net = nbs_training syn"
  shows "snd (NoiseBandNet_synthesize net randint amplitudes) =
           snd (NoiseBandSynth_call syn randint amplitudes)
       \<and> net_noisebands_shift (fst (NoiseBandNet_synthesize net randint amplitudes)) =
           nbs_noisebands_shift (fst (NoiseBandSynth_call syn randint amplitudes))
       \<and> net_noisebands (fst (NoiseBandNet_synthesize net randint amplitudes)) =
           nbs_noisebands (fst (NoiseBandSynth_call syn randint amplitudes))
       \<and> net_resampling_factor (fst (NoiseBandNet_synthesize net randint amplitudes)) =
           nbs_resampling_factor (fst (NoiseBandSynth_call syn randint amplitudes))
       \<and> net_training (fst (NoiseBandNet_synthesize net randint amplitudes)) =
           nbs_training (fst (NoiseBandSynth_call syn randint amplitudes))"
  using assms
  by (simp add: NoiseBandNet_synthesize_def NoiseBandSynth_call_def Let_def
      split: sum.splits)

theorem synthesize_equivalent_witness:
  "net_resampling_factor example_net = nbs_resampling_factor example_synth
   \<and> net_noisebands example_net = nbs_noisebands example_synth
   \<and> net_noisebands_shift example_net = nbs_noisebands_shift example_synth
   \<and> net_training example_net = nbs_training example_synth
   \<and> snd (NoiseBandNet_synthesize example_net 0 [[[1], [2]]]) = Inr [[[21, 42]]]
   \<and> snd (NoiseBandSynth_call example_synth 0 [[[1], [2]]]) = Inr [[[21, 42]]]
   \<and> net_noisebands_shift (fst (NoiseBandNet_synthesize example_net 0 [[[1], [2]]])) = 2
   \<and> nbs_noisebands_shift (fst (NoiseBandSynth_call example_synth 0 [[[1], [2]]])) = 2"
proof -
  have h: "net_resampling_factor example_net = nbs_resampling_factor example_synth"
    "net_noisebands example_net = nbs_noisebands example_synth"
    "net_noisebands_shift example_net = nbs_noisebands_shift example_synth"
    "net_training example_net = nbs_training example_synth"
    by (simp_all add: example_defs)
  have c: "NoiseBandSynth_call example_synth 0 [[[1], [2]]] =
     (example_synth\<lparr> nbs_noisebands_shift := 2 \<rparr>, Inr [[[21, 42]]])"
    by (simp add: example_defs eval_defs upt_rec ceiling_half)
  from synthesize_equivalent [OF h, of 0 "[[[1], [2]]]"] c h show ?thesis by simp
qed

section \<open>Determinism outside training\<close>

text \<open>
  C9.  The only random input of a render is the rotation that \<open>NoiseBandSynth\<close> draws,
  and it is read in training mode only: in evaluation mode two calls from the same
  instance state with the same amplitudes return the same signal and the same new
  state whatever is drawn.  \<open>SineSynth\<close> and \<open>HarmonicSynth\<close> draw nothing: their result
  and new state are functions of the instance state and the input tensors.  Samples
  are real numbers here, so "bit-identical" reads as "equal".
\<close>

theorem render_deterministic_outside_training:
  "(\<not> nbs_training self \<longrightarrow>
      NoiseBandSynth_call self randint amplitudes = NoiseBandSynth_call self randint' amplitudes)
   \<and> (sine = sine' \<and> frequencies = frequencies' \<and> amplitudes = amplitudes' \<longrightarrow>
      SineSynth_call sine frequencies amplitudes = SineSynth_call sine' frequencies' amplitudes')
   \<and> (harm = harm' \<and> fundamental = fundamental' \<and> amplitudes = amplitudes' \<longrightarrow>
      HarmonicSynth_call harm fundamental amplitudes
        = HarmonicSynth_call harm' fundamental' amplitudes')"
  by (simp add: NoiseBandSynth_call_def Let_def split: sum.splits)

theorem render_deterministic_outside_training_witness:
  "\<not> nbs_training example_synth
   \<and> NoiseBandSynth_call example_synth 0 [[[1], [2]]]
       = NoiseBandSynth_call example_synth 3 [[[1], [2]]]
   \<and> NoiseBandSynth_call example_synth 3 [[[1], [2]]]
       = (example_synth\<lparr> nbs_noisebands_shift := 2 \<rparr>, Inr [[[21, 42]]])
   \<and> SineSynth_call (SineSynth_init 4 1 1 True) [[[1]]] [[[1]]]
       = SineSynth_call (SineSynth_init 4 1 1 True) [[[1]]] [[[1]]]
   \<and> HarmonicSynth_call (HarmonicSynth_init 4 1 1 True) (Rank3 [[[1]]]) [[[1]]]
       = HarmonicSynth_call (HarmonicSynth_init 4 1 1 True) (Rank3 [[[1]]]) [[[1]]]"
proof -
  have nt: "\<not> nbs_training example_synth" by (simp add: example_defs)
  have c: "NoiseBandSynth_call example_synth 0 [[[1], [2]]] =
     (example_synth\<lparr> nbs_noisebands_shift := 2 \<rparr>, Inr [[[21, 42]]])"
    by (simp add: example_defs eval_defs upt_rec ceiling_half)
  from render_deterministic_outside_training
         [of example_synth 0 "[[[1], [2]]]" 3
             "SineSynth_init 4 1 1 True" "SineSynth_init 4 1 1 True" "[[[1]]]" "[[[1]]]"
             "[[[1], [2]]]" "HarmonicSynth_init 4 1 1 True" "HarmonicSynth_init 4 1 1 True"
             "Rank3 [[[1]]]" "Rank3 [[[1]]]"] nt c
  show ?thesis by simp
qed

section \<open>The non-streaming sine synth is stateless\<close>

text \<open>
  C10.  With \<open>streaming = False\<close> a call returns the instance unchanged (a phases buffer
  that is \<open>None\<close> stays \<open>None\<close>), and its result does not depend on the phases buffer:
  the result is the same whatever calls came before.
\<close>

theorem sine_nonstreaming_stateless:
  assumes "\<not> streaming self"
  shows "fst (SineSynth_call self frequencies amplitudes) = self
       \<and> (phases self = None \<longrightarrow>
            phases (fst (SineSynth_call self frequencies amplitudes)) = None)
       \<and> snd (SineSynth_call (self\<lparr>phases := p\<rparr>) frequencies amplitudes) =
           snd (SineSynth_call self frequencies amplitudes)"
  using assms
  by (simp add: SineSynth_call_def Let_def split: sum.splits)

theorem sine_nonstreaming_stateless_witness:
  "\<not> streaming (SineSynth_init 4 1 1 False)
   \<and> phases (SineSynth_init 4 1 1 False) = None
   \<and> fst (SineSynth_call (SineSynth_init 4 1 1 False) [[[1]]] [[[1]]])
       = SineSynth_init 4 1 1 False
   \<and> phases (fst (SineSynth_call (SineSynth_init 4 1 1 False) [[[1]]] [[[1]]])) = None
   \<and> snd (SineSynth_call ((SineSynth_init 4 1 1 False)\<lparr>phases := Some [[1]]\<rparr>) [[[1]]] [[[1]]])
       = snd (SineSynth_call (SineSynth_init 4 1 1 False) [[[1]]] [[[1]]])"
proof -
  have h: "\<not> streaming (SineSynth_init 4 1 1 False)"
    and n: "phases (SineSynth_init 4 1 1 False) = None"
    by (simp_all add: SineSynth_init_def)
  from sine_nonstreaming_stateless [OF h, of "[[[1]]]" "[[[1]]]" "Some [[1]]"] h n
  show ?thesis by simp
qed

section \<open>Phase accumulation of one oscillator\<close>

lemma float_mod_shift:
  assumes "y \<noteq> 0"
  shows "float_mod (x + y * of_int k) y = float_mod x y"
proof -
  have "(x + y * of_int k) / y = x / y + of_int k"
    using assms by (simp add: field_simps)
  then show ?thesis by (simp add: float_mod_def algebra_simps)
qed

lemma float_mod_float_mod_add:
  assumes "y \<noteq> 0"
  shows "float_mod (float_mod x y + z) y = float_mod (x + z) y"
proof -
  have "float_mod x y + z = (x + z) + y * of_int (- \<lfloor>x / y\<rfloor>)"
    by (simp add: float_mod_def algebra_simps)
  then show ?thesis by (simp only: float_mod_shift [OF assms])
qed

lemma sin_float_mod_add: "sin (float_mod x (2 * pi) + c) = sin (x + c)"
proof -
  have "float_mod x (2 * pi) + c = (x + c) - (2 * pi) * of_int \<lfloor>x / (2 * pi)\<rfloor>"
    by (simp add: float_mod_def algebra_simps)
  then have "sin (float_mod x (2 * pi) + c) = sin ((x + c) - (2 * pi) * of_int \<lfloor>x / (2 * pi)\<rfloor>)"
    by (simp only:)
  also have "\<dots> = sin (x + c)"
    by (simp only: sin_diff sin_int_2pin cos_int_2pin)
  finally show ?thesis .
qed

lemma cumsum_from_append:
  "cumsum_from acc (xs @ ys) = cumsum_from acc xs @ cumsum_from (acc + sum_list xs) ys"
  by (induction xs arbitrary: acc) (simp_all add: add.assoc)

lemma cumsum_from_shift: "cumsum_from acc xs = map (\<lambda>x. acc + x) (cumsum_from 0 xs)"
proof (induction xs arbitrary: acc)
  case Nil
  show ?case by simp
next
  case (Cons x xs)
  have "cumsum_from (acc + x) xs = map (\<lambda>y. (acc + x) + y) (cumsum_from 0 xs)"
    by (rule Cons.IH)
  moreover have "cumsum_from (0 + x) xs = map (\<lambda>y. (0 + x) + y) (cumsum_from 0 xs)"
    by (rule Cons.IH)
  ultimately show ?case by (simp add: add.assoc)
qed

lemma length_cumsum_from: "length (cumsum_from acc xs) = length xs"
  by (induction xs arbitrary: acc) simp_all

lemma last_cumsum_from: "xs \<noteq> [] \<Longrightarrow> last (cumsum_from acc xs) = acc + sum_list xs"
proof (induction xs arbitrary: acc)
  case Nil
  then show ?case by simp
next
  case (Cons x xs)
  show ?case
  proof (cases "xs = []")
    case True
    then show ?thesis by simp
  next
    case False
    with Cons.IH [of "acc + x"] have "last (cumsum_from (acc + x) xs) = acc + x + sum_list xs"
      by simp
    moreover from False have "cumsum_from (acc + x) xs \<noteq> []"
      by (cases xs) simp_all
    ultimately show ?thesis by (simp add: add.assoc)
  qed
qed

lemma length_osc_phase: "length (osc_phase c ws) = length ws"
  by (simp add: osc_phase_def cumsum_def length_cumsum_from)

lemma osc_carry_eq:
  assumes "ws \<noteq> []"
  shows "osc_carry c ws = float_mod (sum_list ws + c) (2 * pi)"
proof -
  have ne: "cumsum_from 0 ws \<noteq> []" using assms by (cases ws) simp_all
  have "last (osc_phase c ws) = float_mod (sum_list ws) (2 * pi) + c"
    using ne assms by (simp add: osc_phase_def cumsum_def last_map last_cumsum_from)
  then show ?thesis by (simp add: osc_carry_def float_mod_float_mod_add)
qed

lemma sin_osc_phase_append:
  assumes "ws1 \<noteq> []"
  shows "map sin (osc_phase c (ws1 @ ws2)) =
         map sin (osc_phase c ws1) @ map sin (osc_phase (osc_carry c ws1) ws2)"
proof -
  have "sin (float_mod (sum_list ws1 + x) (2 * pi) + c) =
        sin (float_mod x (2 * pi) + float_mod (sum_list ws1 + c) (2 * pi))" for x
  proof -
    have "sin (float_mod x (2 * pi) + float_mod (sum_list ws1 + c) (2 * pi)) =
          sin (x + float_mod (sum_list ws1 + c) (2 * pi))"
      by (rule sin_float_mod_add)
    also have "\<dots> = sin (float_mod (sum_list ws1 + c) (2 * pi) + x)" by (simp add: add.commute)
    also have "\<dots> = sin ((sum_list ws1 + c) + x)" by (rule sin_float_mod_add)
    also have "\<dots> = sin ((sum_list ws1 + x) + c)" by (simp add: ac_simps)
    also have "\<dots> = sin (float_mod (sum_list ws1 + x) (2 * pi) + c)"
      by (rule sin_float_mod_add [symmetric])
    finally show ?thesis by simp
  qed
  then have "map (\<lambda>x. sin (float_mod x (2 * pi) + c)) (cumsum_from (sum_list ws1) ws2) =
        map (\<lambda>x. sin (float_mod x (2 * pi) + float_mod (sum_list ws1 + c) (2 * pi))) (cumsum_from 0 ws2)"
    by (subst cumsum_from_shift) (simp add: o_def)
  then show ?thesis
    by (simp add: osc_phase_def cumsum_def cumsum_from_append osc_carry_eq [OF assms]
        o_def)
qed

lemma osc_carry_append:
  assumes "ws1 \<noteq> []" "ws2 \<noteq> []"
  shows "osc_carry c (ws1 @ ws2) = osc_carry (osc_carry c ws1) ws2"
proof -
  have "float_mod (sum_list ws2 + float_mod (sum_list ws1 + c) (2 * pi)) (2 * pi) =
        float_mod (sum_list ws1 + c + sum_list ws2) (2 * pi)"
    using float_mod_float_mod_add [of "2 * pi" "sum_list ws1 + c" "sum_list ws2"]
    by (simp add: add.commute)
  then show ?thesis using assms by (simp add: osc_carry_eq ac_simps)
qed


section \<open>Phases of a whole call\<close>

lemma rect3_length: "rect3 B S T x \<Longrightarrow> length x = B"
  by (simp add: rect3_def)

lemma rect2_length: "rect2 S T m \<Longrightarrow> length m = S"
  by (simp add: rect2_def)

lemma rect3_nth: "rect3 B S T x \<Longrightarrow> b < B \<Longrightarrow> rect2 S T (x ! b)"
  by (simp add: rect3_def list_all_length)

lemma rect2_nth: "rect2 S T m \<Longrightarrow> s < S \<Longrightarrow> length (m ! s) = T"
  by (simp add: rect2_def list_all_length)

lemma rect2I: "length m = S \<Longrightarrow> (\<And>s. s < S \<Longrightarrow> length (m ! s) = T) \<Longrightarrow> rect2 S T m"
  by (simp add: rect2_def list_all_length)

lemma rect3I: "length x = B \<Longrightarrow> (\<And>b. b < B \<Longrightarrow> rect2 S T (x ! b)) \<Longrightarrow> rect3 B S T x"
  by (simp add: rect3_def list_all_length)

lemma tensor2_eqI:
  assumes "length x = B" "length y = B"
    and "\<And>b. b < B \<Longrightarrow> length (x ! b) = S"
    and "\<And>b. b < B \<Longrightarrow> length (y ! b) = S"
    and "\<And>b s. b < B \<Longrightarrow> s < S \<Longrightarrow> x ! b ! s = y ! b ! s"
  shows "x = y"
proof (rule nth_equalityI)
  show "length x = length y" using assms(1,2) by simp
next
  fix b assume "b < length x"
  then have b: "b < B" using assms(1) by simp
  show "x ! b = y ! b"
  proof (rule nth_equalityI)
    show "length (x ! b) = length (y ! b)" using assms(3,4) b by simp
  next
    fix s assume "s < length (x ! b)"
    then have "s < S" using assms(3) b by simp
    with b show "x ! b ! s = y ! b ! s" by (rule assms(5))
  qed
qed

lemma nth_cat2:
  assumes "rect3 B S T1 x" "rect3 B S T2 y" "b < B"
  shows "cat2 x y ! b = map2 (@) (x ! b) (y ! b)"
  using assms by (simp add: cat2_def rect3_def)

lemma nth_nth_cat2:
  assumes "rect3 B S T1 x" "rect3 B S T2 y" "b < B" "s < S"
  shows "cat2 x y ! b ! s = x ! b ! s @ y ! b ! s"
proof -
  have "length (x ! b) = S" "length (y ! b) = S"
    using assms by (auto dest: rect3_nth rect2_length)
  with assms show ?thesis by (simp add: nth_cat2 [OF assms(1-3)])
qed

lemma nth_sine_phases:
  assumes "rect3 B S T F" "rect2 B S p" "b < B" "s < S"
  shows "sine_phases sr F p ! b ! s =
         osc_phase (p ! b ! s) (map (\<lambda>x. x * 2 * pi / real_of_int sr) (F ! b ! s))"
proof -
  have l: "length F = B" "length p = B" using assms by (simp_all add: rect3_def rect2_def)
  have "length (F ! b) = S" using assms by (auto dest: rect3_nth rect2_length)
  moreover have "length (p ! b) = S" using assms by (simp add: rect2_nth)
  ultimately show ?thesis using assms l by (simp add: sine_phases_def)
qed

lemma rect3_sine_phases:
  assumes "rect3 B S T F" "rect2 B S p"
  shows "rect3 B S T (sine_phases sr F p)"
proof (rule rect3I)
  show "length (sine_phases sr F p) = B"
    using assms by (simp add: sine_phases_def rect3_def rect2_def)
next
  fix b assume b: "b < B"
  have l: "length F = B" "length p = B" using assms by (simp_all add: rect3_def rect2_def)
  have lb: "length (F ! b) = S" "length (p ! b) = S"
    using assms b by (auto dest: rect3_nth rect2_length simp: rect2_nth)
  show "rect2 S T (sine_phases sr F p ! b)"
  proof (rule rect2I)
    show "length (sine_phases sr F p ! b) = S" using b l lb by (simp add: sine_phases_def)
  next
    fix s assume s: "s < S"
    have "length (F ! b ! s) = T" using assms(1) b s by (auto dest: rect3_nth rect2_nth)
    then show "length (sine_phases sr F p ! b ! s) = T"
      by (simp add: nth_sine_phases [OF assms b s] length_osc_phase)
  qed
qed

lemma rect2_sine_carry:
  assumes "rect3 B S T P"
  shows "rect2 B S (sine_carry P)"
  using assms by (simp add: sine_carry_def rect3_def rect2_def list_all_iff)

lemma nth_sine_carry:
  assumes "rect3 B S T P" "b < B" "s < S"
  shows "sine_carry P ! b ! s = float_mod (last (P ! b ! s)) (2 * pi)"
proof -
  have "length P = B" using assms by (simp add: rect3_def)
  moreover have "length (P ! b) = S" using assms by (auto dest: rect3_nth rect2_length)
  ultimately show ?thesis using assms by (simp add: sine_carry_def)
qed

lemma nth_carry_phases:
  assumes "rect3 B S T F" "rect2 B S p" "b < B" "s < S"
  shows "sine_carry (sine_phases sr F p) ! b ! s =
         osc_carry (p ! b ! s) (map (\<lambda>x. x * 2 * pi / real_of_int sr) (F ! b ! s))"
  by (simp add: nth_sine_carry [OF rect3_sine_phases [OF assms(1,2)] assms(3,4)]
      nth_sine_phases [OF assms] osc_carry_def)

lemma sine_carry_cat2:
  assumes "rect3 B S T1 F1" "rect3 B S T2 F2" "rect2 B S p" "0 < T1" "0 < T2"
  shows "sine_carry (sine_phases sr (cat2 F1 F2) p) =
         sine_carry (sine_phases sr F2 (sine_carry (sine_phases sr F1 p)))"
proof (rule tensor2_eqI [where B = B and S = S])
  let ?p1 = "sine_carry (sine_phases sr F1 p)"
  have c: "rect3 B S (T1 + T2) (cat2 F1 F2)" using assms(1,2) by (rule rect3_cat2)
  have p1: "rect2 B S ?p1" by (rule rect2_sine_carry [OF rect3_sine_phases [OF assms(1,3)]])
  have r: "rect2 B S (sine_carry (sine_phases sr (cat2 F1 F2) p))"
    by (rule rect2_sine_carry [OF rect3_sine_phases [OF c assms(3)]])
  have r': "rect2 B S (sine_carry (sine_phases sr F2 ?p1))"
    by (rule rect2_sine_carry [OF rect3_sine_phases [OF assms(2) p1]])
  show "length (sine_carry (sine_phases sr (cat2 F1 F2) p)) = B" using r by (rule rect2_length)
  show "length (sine_carry (sine_phases sr F2 ?p1)) = B" using r' by (rule rect2_length)
  show "length (sine_carry (sine_phases sr (cat2 F1 F2) p) ! b) = S" if "b < B" for b
    using r that by (rule rect2_nth)
  show "length (sine_carry (sine_phases sr F2 ?p1) ! b) = S" if "b < B" for b
    using r' that by (rule rect2_nth)
  show "sine_carry (sine_phases sr (cat2 F1 F2) p) ! b ! s =
        sine_carry (sine_phases sr F2 ?p1) ! b ! s" if "b < B" "s < S" for b s
  proof -
    have n1: "F1 ! b ! s \<noteq> []" and n2: "F2 ! b ! s \<noteq> []"
      using assms that by (auto dest!: rect3_nth dest: rect2_nth)
    show ?thesis
      using n1 n2
      by (simp add: nth_carry_phases [OF c assms(3) that]
          nth_carry_phases [OF assms(2) p1 that]
          nth_carry_phases [OF assms(1,3) that]
          nth_nth_cat2 [OF assms(1,2) that] osc_carry_append)
  qed
qed


lemma rect3_map3:
  assumes "rect3 B S T x"
  shows "rect3 B S T (map3 f x)"
  using assms by (simp add: map3_def rect3_def rect2_def list_all_iff)

lemma nth_map3:
  assumes "rect3 B S T x" "b < B" "s < S"
  shows "map3 f x ! b ! s = map f (x ! b ! s)"
proof -
  have "length x = B" using assms by (simp add: rect3_def)
  moreover have "length (x ! b) = S" using assms by (auto dest: rect3_nth rect2_length)
  ultimately show ?thesis using assms by (simp add: map3_def)
qed

lemma sin_phases_cat2:
  assumes "rect3 B S T1 F1" "rect3 B S T2 F2" "rect2 B S p" "0 < T1"
  shows "map3 sin (sine_phases sr (cat2 F1 F2) p) =
         cat2 (map3 sin (sine_phases sr F1 p))
              (map3 sin (sine_phases sr F2 (sine_carry (sine_phases sr F1 p))))"
proof (rule tensor2_eqI [where B = B and S = S])
  let ?p1 = "sine_carry (sine_phases sr F1 p)"
  let ?L = "map3 sin (sine_phases sr (cat2 F1 F2) p)"
  let ?R1 = "map3 sin (sine_phases sr F1 p)"
  let ?R2 = "map3 sin (sine_phases sr F2 ?p1)"
  have c: "rect3 B S (T1 + T2) (cat2 F1 F2)" using assms(1,2) by (rule rect3_cat2)
  have p1: "rect2 B S ?p1" by (rule rect2_sine_carry [OF rect3_sine_phases [OF assms(1,3)]])
  have ph: "rect3 B S (T1 + T2) (sine_phases sr (cat2 F1 F2) p)"
    by (rule rect3_sine_phases [OF c assms(3)])
  have ph1: "rect3 B S T1 (sine_phases sr F1 p)" by (rule rect3_sine_phases [OF assms(1,3)])
  have ph2: "rect3 B S T2 (sine_phases sr F2 ?p1)" by (rule rect3_sine_phases [OF assms(2) p1])
  have l: "rect3 B S (T1 + T2) ?L" by (rule rect3_map3 [OF ph])
  have r1: "rect3 B S T1 ?R1" by (rule rect3_map3 [OF ph1])
  have r2: "rect3 B S T2 ?R2" by (rule rect3_map3 [OF ph2])
  have r: "rect3 B S (T1 + T2) (cat2 ?R1 ?R2)" using r1 r2 by (rule rect3_cat2)
  show "length ?L = B" using l by (rule rect3_length)
  show "length (cat2 ?R1 ?R2) = B" using r by (rule rect3_length)
  show "length (?L ! b) = S" if "b < B" for b
    using rect3_nth [OF l that] by (rule rect2_length)
  show "length (cat2 ?R1 ?R2 ! b) = S" if "b < B" for b
    using rect3_nth [OF r that] by (rule rect2_length)
  show "?L ! b ! s = cat2 ?R1 ?R2 ! b ! s" if "b < B" "s < S" for b s
  proof -
    have n1: "F1 ! b ! s \<noteq> []"
      using assms that by (auto dest!: rect3_nth dest: rect2_nth)
    show ?thesis
      using n1
      by (simp add: nth_map3 [OF ph that] nth_map3 [OF ph1 that] nth_map3 [OF ph2 that]
          nth_nth_cat2 [OF r1 r2 that] nth_nth_cat2 [OF assms(1,2) that]
          nth_sine_phases [OF c assms(3) that] nth_sine_phases [OF assms(1,3) that]
          nth_sine_phases [OF assms(2) p1 that] nth_carry_phases [OF assms(1,3) that]
          sin_osc_phase_append)
  qed
qed

lemma mix3_cat2:
  assumes "rect3 B S T1 A1" "rect3 B S T2 A2" "rect3 B S T1 P1" "rect3 B S T2 P2" "0 < S"
  shows "mix3 (cat2 A1 A2) (cat2 P1 P2) = cat2 (mix3 A1 P1) (mix3 A2 P2)"
proof (rule nth_equalityI)
  have l: "length A1 = B" "length A2 = B" "length P1 = B" "length P2 = B"
    using assms by (simp_all add: rect3_def)
  show "length (mix3 (cat2 A1 A2) (cat2 P1 P2)) = length (cat2 (mix3 A1 P1) (mix3 A2 P2))"
    using l by (simp add: mix3_def cat2_def)
  fix b assume "b < length (mix3 (cat2 A1 A2) (cat2 P1 P2))"
  then have b: "b < B" using l by (simp add: mix3_def cat2_def)
  have "band_sum (map2 (map2 (*)) (map2 (@) (A1 ! b) (A2 ! b)) (map2 (@) (P1 ! b) (P2 ! b))) =
        band_sum (map2 (map2 (*)) (A1 ! b) (P1 ! b)) @ band_sum (map2 (map2 (*)) (A2 ! b) (P2 ! b))"
    using assms b by (intro band_sum_append) (auto dest: rect3_nth)
  then show "mix3 (cat2 A1 A2) (cat2 P1 P2) ! b = cat2 (mix3 A1 P1) (mix3 A2 P2) ! b"
    using b l by (simp add: mix3_def cat2_def)
qed

lemma add_phases_eval:
  assumes "rect3 B S T F" "rect2 B S p"
  shows "add_phases
           (map3 (\<lambda>x. float_mod x (2 * pi))
              (map (map cumsum) (map3 (\<lambda>x. x * 2 * pi / real_of_int sr) F))) p =
         Inr (sine_phases sr F p)"
proof -
  let ?ph1 = "map3 (\<lambda>x. float_mod x (2 * pi))
              (map (map cumsum) (map3 (\<lambda>x. x * 2 * pi / real_of_int sr) F))"
  have len: "length ?ph1 = length p" using assms by (simp add: map3_def rect3_def rect2_def)
  have "add_phases ?ph1 p = Inr (map2 (map2 (\<lambda>row c. map (\<lambda>x. x + c) row)) ?ph1 p)"
    unfolding add_phases_def
  proof (rule bcast2_same_length [OF len])
    fix m q assume "(m, q) \<in> set (zip ?ph1 p)"
    then have "m \<in> set ?ph1" "q \<in> set p" by (auto dest: set_zip_leftD set_zip_rightD)
    then have "length m = S" "length q = S"
      using assms by (auto simp: map3_def rect3_def rect2_def list_all_iff)
    then have "length m = length q" by simp
    then show "bcast2 (\<lambda>row c. Inr (map (\<lambda>x. x + c) row)) m q =
               Inr (map2 (\<lambda>row c. map (\<lambda>x. x + c) row) m q)"
      by (rule bcast2_same_length) simp
  qed
  also have "map2 (map2 (\<lambda>row c. map (\<lambda>x. x + c) row)) ?ph1 p = sine_phases sr F p"
    by (simp add: sine_phases_def map3_def osc_phase_def zip_map1 o_def split_def)
  finally show ?thesis .
qed

lemma copy_into_same_shape:
  assumes "rect2 B S dest" "rect2 B S src" "0 < B"
  shows "copy_into dest src = Inr src"
proof -
  have d0: "dim0 dest = B" using assms by (simp add: dim0_def rect2_def)
  have d1: "dim1 dest = S" using assms(1,3) by (rule dim1_rect2)
  have e: "expand B src = Inr src" using assms by (simp add: expand_def rect2_def)
  have "sequence (map (expand S) src) = Inr (map (\<lambda>r. r) src)"
    by (rule sequence_map_Inr) (use assms in \<open>auto simp: expand_def rect2_def list_all_iff\<close>)
  then show ?thesis by (simp add: copy_into_def d0 d1 e)
qed


section \<open>What a sine call returns on well-shaped input\<close>

lemma dim1_rect3: "rect3 B S L x \<Longrightarrow> 0 < B \<Longrightarrow> dim1 x = S"
  by (cases x) (auto simp: rect3_def rect2_def dim1_def)

lemma interpolate_rect3:
  assumes "rect3 B S L x" "0 < B" "0 < S" "0 < L" "0 < r"
  shows "interpolate r x = Inr (upsample r x)"
  using assms by (simp add: interpolate_def upsample_def dim1_rect3 [OF assms(1,2)]
      dim2_rect3 [OF assms(1-3)])

lemma rect3_upsample: "rect3 B S L x \<Longrightarrow> rect3 B S (L * r) (upsample r x)"
  unfolding upsample_def by (rule rect3_interpolate)

lemma sine_call_streaming:
  assumes st: "streaming self" and ph: "phases self = Some p" and p: "rect2 B S p"
    and pos: "0 < B" "0 < S" "0 < L" "0 < resampling_factor self"
    and f: "rect3 B S L f" and a: "rect3 B S L a"
  shows "SineSynth_call self f a =
     (self\<lparr> phases := Some (sine_carry (sine_phases (fs self) (upsample (resampling_factor self) f) p)) \<rparr>,
      Inr (mix3 (upsample (resampling_factor self) a)
             (map3 sin (sine_phases (fs self) (upsample (resampling_factor self) f) p))))"
proof -
  let ?r = "resampling_factor self"
  let ?F = "upsample ?r f" and ?A = "upsample ?r a"
  let ?P = "sine_phases (fs self) ?F p"
  have F: "rect3 B S (L * ?r) ?F" and A: "rect3 B S (L * ?r) ?A"
    using f a by (simp_all add: rect3_upsample)
  have P: "rect3 B S (L * ?r) ?P" by (rule rect3_sine_phases [OF F p])
  have b: "dim0 f = B" "dim0 p = B" using f p by (simp_all add: dim0_def rect3_def rect2_def)
  have i1: "interpolate ?r f = Inr ?F" using f pos by (rule interpolate_rect3)
  have i2: "interpolate ?r a = Inr ?A" using a pos by (rule interpolate_rect3)
  have ap: "add_phases
           (map3 (\<lambda>x. float_mod x (2 * pi))
              (map (map cumsum) (map3 (\<lambda>x. x * 2 * pi / real_of_int (fs self)) ?F))) p =
         Inr ?P"
    by (rule add_phases_eval [OF F p])
  have c: "map (map (\<lambda>x. float_mod x (2 * pi))) (last_step ?P) = sine_carry ?P"
    by (simp add: last_step_def sine_carry_def o_def)
  have cp: "copy_into p (sine_carry ?P) = Inr (sine_carry ?P)"
    using p rect2_sine_carry [OF P] pos(1) by (rule copy_into_same_shape)
  have m: "mul3 ?A (map3 sin ?P) = Inr (map2 (map2 (map2 (*))) ?A (map3 sin ?P))"
    using A rect3_map3 [OF P] by (rule mul3_same_shape)
  have s: "sum_dim1 (map2 (map2 (map2 (*))) ?A (map3 sin ?P)) = mix3 ?A (map3 sin ?P)"
    by (simp add: sum_dim1_def mix3_def band_sum_def)
  show ?thesis
    using st ph
    by (simp add: SineSynth_call_def Let_def b i1 i2 ap c cp m s)
qed

lemma sine_call_fresh:
  assumes "streaming self" "phases self = None" "dim0 f = B"
  shows "SineSynth_call self f a =
         SineSynth_call (self\<lparr> phases := Some (replicate B (replicate (n_sines self) 0)) \<rparr>) f a"
  using assms by (simp add: SineSynth_call_def Let_def dim0_def)

lemma sine_phases_zero:
  assumes "rect3 B S T F"
  shows "sine_phases sr F (replicate B (replicate S 0)) =
         map3 (\<lambda>x. float_mod x (2 * pi)) (map (map cumsum) (map3 (\<lambda>x. x * 2 * pi / real_of_int sr) F))"
proof (rule tensor2_eqI [where B = B and S = S])
  let ?z = "replicate B (replicate S (0::real))"
  let ?R = "map3 (\<lambda>x. float_mod x (2 * pi)) (map (map cumsum) (map3 (\<lambda>x. x * 2 * pi / real_of_int sr) F))"
  have z: "rect2 B S ?z" by (simp add: rect2_def list_all_iff)
  have l: "rect3 B S T (sine_phases sr F ?z)" by (rule rect3_sine_phases [OF assms z])
  have lF: "length F = B" using assms by (simp add: rect3_def)
  show "length (sine_phases sr F ?z) = B" using l by (rule rect3_length)
  show "length ?R = B" using assms by (simp add: map3_def rect3_def)
  show "length (sine_phases sr F ?z ! b) = S" if "b < B" for b
    using rect3_nth [OF l that] by (rule rect2_length)
  show "length (?R ! b) = S" if "b < B" for b
    using rect2_length [OF rect3_nth [OF assms that]] that lF by (simp add: map3_def)
  show "sine_phases sr F ?z ! b ! s = ?R ! b ! s" if "b < B" "s < S" for b s
  proof -
    have "length (F ! b) = S" using rect2_length [OF rect3_nth [OF assms that(1)]] .
    then show ?thesis
      using that lF
      by (simp add: nth_sine_phases [OF assms z that] osc_phase_def map3_def)
  qed
qed

lemma sine_call_nonstreaming:
  assumes st: "\<not> streaming self"
    and pos: "0 < B" "0 < S" "0 < L" "0 < resampling_factor self"
    and f: "rect3 B S L f" and a: "rect3 B S L a"
  shows "SineSynth_call self f a =
     (self,
      Inr (mix3 (upsample (resampling_factor self) a)
             (map3 sin (sine_phases (fs self) (upsample (resampling_factor self) f)
                          (replicate B (replicate S 0))))))"
proof -
  let ?r = "resampling_factor self"
  let ?F = "upsample ?r f" and ?A = "upsample ?r a"
  let ?P = "sine_phases (fs self) ?F (replicate B (replicate S 0))"
  have F: "rect3 B S (L * ?r) ?F" and A: "rect3 B S (L * ?r) ?A"
    using f a by (simp_all add: rect3_upsample)
  have z: "rect2 B S (replicate B (replicate S (0::real)))" by (simp add: rect2_def list_all_iff)
  have P: "rect3 B S (L * ?r) ?P" by (rule rect3_sine_phases [OF F z])
  have i1: "interpolate ?r f = Inr ?F" using f pos by (rule interpolate_rect3)
  have i2: "interpolate ?r a = Inr ?A" using a pos by (rule interpolate_rect3)
  have m: "mul3 ?A (map3 sin ?P) = Inr (map2 (map2 (map2 (*))) ?A (map3 sin ?P))"
    using A rect3_map3 [OF P] by (rule mul3_same_shape)
  have s: "sum_dim1 (map2 (map2 (map2 (*))) ?A (map3 sin ?P)) = mix3 ?A (map3 sin ?P)"
    by (simp add: sum_dim1_def mix3_def band_sum_def)
  show ?thesis
    using st m s
    by (simp add: SineSynth_call_def Let_def i1 i2 sine_phases_zero [OF F, symmetric])
qed


section \<open>Sine-phase continuity\<close>

lemma cat_last_Cons: "ts \<noteq> [] \<Longrightarrow> cat_last (t # ts) = cat2 t (cat_last ts)"
  by (cases ts) simp_all

lemma chunk_okD:
  assumes "chunk_ok B S (f, a)"
  shows "0 < dim2 f" "rect3 B S (dim2 f) f" "rect3 B S (dim2 f) a"
  using assms by (simp_all add: chunk_ok_def)

lemma chunks_whole_shape:
  assumes "chunks \<noteq> []" "list_all (chunk_ok B S) chunks"
  shows "\<exists>L>0. rect3 B S L (cat_last (map fst chunks)) \<and> rect3 B S L (cat_last (map snd chunks))"
  using assms
proof (induction chunks)
  case Nil
  then show ?case by simp
next
  case (Cons c chunks)
  obtain f a where c: "c = (f, a)" by (cases c)
  from Cons.prems c have ok: "chunk_ok B S (f, a)" by simp
  note d = chunk_okD [OF ok]
  show ?case
  proof (cases "chunks = []")
    case True
    with c d show ?thesis by auto
  next
    case False
    with Cons obtain L where L: "0 < L" "rect3 B S L (cat_last (map fst chunks))"
      "rect3 B S L (cat_last (map snd chunks))" by auto
    have "rect3 B S (dim2 f + L) (cat2 f (cat_last (map fst chunks)))"
      using d(2) L(2) by (rule rect3_cat2)
    moreover have "rect3 B S (dim2 f + L) (cat2 a (cat_last (map snd chunks)))"
      using d(3) L(3) by (rule rect3_cat2)
    ultimately show ?thesis using False c d(1) by (auto simp: cat_last_Cons)
  qed
qed

lemma render_chunks_streaming:
  assumes "streaming self" "phases self = Some p" "rect2 B S p"
    and "0 < B" "0 < S" "0 < resampling_factor self"
    and "chunks \<noteq> []" "list_all (chunk_ok B S) chunks"
    and "upsampling_splits (resampling_factor self) (map fst chunks)"
    and "upsampling_splits (resampling_factor self) (map snd chunks)"
  shows "\<exists>signals.
           SineSynth_render_chunks self chunks =
             (fst (SineSynth_call self (cat_last (map fst chunks)) (cat_last (map snd chunks))),
              Inr signals)
         \<and> signals \<noteq> []
         \<and> snd (SineSynth_call self (cat_last (map fst chunks)) (cat_last (map snd chunks))) =
             Inr (cat_last signals)"
  using assms
proof (induction chunks arbitrary: self p)
  case Nil
  then show ?case by simp
next
  case (Cons c chunks)
  obtain f a where c: "c = (f, a)" by (cases c)
  let ?r = "resampling_factor self" and ?sr = "fs self"
  from Cons.prems c have ok: "chunk_ok B S (f, a)" by simp
  note d = chunk_okD [OF ok]
  note pos = \<open>0 < B\<close> \<open>0 < S\<close>
  note rpos = \<open>0 < resampling_factor self\<close>
  let ?p1 = "sine_carry (sine_phases ?sr (upsample ?r f) p)"
  let ?self1 = "self\<lparr> phases := Some ?p1 \<rparr>"
  let ?sig1 = "mix3 (upsample ?r a) (map3 sin (sine_phases ?sr (upsample ?r f) p))"
  have call1: "SineSynth_call self f a = (?self1, Inr ?sig1)"
    using Cons.prems(1-3) pos d(1) rpos d(2,3) by (rule sine_call_streaming)
  show ?case
  proof (cases "chunks = []")
    case True
    then show ?thesis by (simp add: c call1)
  next
    case False
    let ?fR = "cat_last (map fst chunks)" and ?aR = "cat_last (map snd chunks)"
    from False Cons.prems obtain L where L: "0 < L" "rect3 B S L ?fR" "rect3 B S L ?aR"
      using chunks_whole_shape [of chunks B S] by auto
    have sp: "upsample ?r (cat2 f ?fR) = cat2 (upsample ?r f) (upsample ?r ?fR)"
      "upsampling_splits ?r (map fst chunks)"
      "upsample ?r (cat2 a ?aR) = cat2 (upsample ?r a) (upsample ?r ?aR)"
      "upsampling_splits ?r (map snd chunks)"
      using Cons.prems(9,10) False c by (cases chunks; simp)+
    have p1: "rect2 B S ?p1"
      by (rule rect2_sine_carry [OF rect3_sine_phases [OF rect3_upsample [OF d(2)] Cons.prems(3)]])
    have U1: "rect3 B S (dim2 f * ?r) (upsample ?r f)"
      and V1: "rect3 B S (dim2 f * ?r) (upsample ?r a)"
      and UR: "rect3 B S (L * ?r) (upsample ?r ?fR)"
      and VR: "rect3 B S (L * ?r) (upsample ?r ?aR)"
      using d L by (simp_all add: rect3_upsample)
    have T1: "0 < dim2 f * ?r" and TR: "0 < L * ?r" using d(1) L(1) rpos by simp_all
    \<comment> \<open>the remaining chunks, from the state the first chunk leaves\<close>
    have st1: "streaming ?self1" "phases ?self1 = Some ?p1"
      "resampling_factor ?self1 = ?r" "fs ?self1 = ?sr"
      using Cons.prems(1) by simp_all
    from Cons.IH [of ?self1 ?p1] st1 p1 pos rpos False Cons.prems(8) sp(2,4)
    obtain signals where ih:
      "SineSynth_render_chunks ?self1 chunks = (fst (SineSynth_call ?self1 ?fR ?aR), Inr signals)"
      "signals \<noteq> []"
      "snd (SineSynth_call ?self1 ?fR ?aR) = Inr (cat_last signals)"
      by auto
    let ?p2 = "sine_carry (sine_phases ?sr (upsample ?r ?fR) ?p1)"
    let ?sigR = "mix3 (upsample ?r ?aR) (map3 sin (sine_phases ?sr (upsample ?r ?fR) ?p1))"
    have "SineSynth_call ?self1 ?fR ?aR =
            (?self1\<lparr> phases := Some (sine_carry (sine_phases (fs ?self1)
                         (upsample (resampling_factor ?self1) ?fR) ?p1)) \<rparr>,
             Inr (mix3 (upsample (resampling_factor ?self1) ?aR)
                    (map3 sin (sine_phases (fs ?self1)
                         (upsample (resampling_factor ?self1) ?fR) ?p1))))"
      using st1(1,2) p1 pos L(1) _ L(2,3) by (rule sine_call_streaming) (simp add: rpos)
    then have callR: "SineSynth_call ?self1 ?fR ?aR = (self\<lparr> phases := Some ?p2 \<rparr>, Inr ?sigR)"
      by simp
    \<comment> \<open>the whole trajectory in one call\<close>
    have wf: "rect3 B S (dim2 f + L) (cat2 f ?fR)" using d(2) L(2) by (rule rect3_cat2)
    have wa: "rect3 B S (dim2 f + L) (cat2 a ?aR)" using d(3) L(3) by (rule rect3_cat2)
    have "SineSynth_call self (cat2 f ?fR) (cat2 a ?aR) =
            (self\<lparr> phases := Some (sine_carry (sine_phases ?sr (upsample ?r (cat2 f ?fR)) p)) \<rparr>,
             Inr (mix3 (upsample ?r (cat2 a ?aR))
                    (map3 sin (sine_phases ?sr (upsample ?r (cat2 f ?fR)) p))))"
      using Cons.prems(1-3) pos _ rpos wf wa by (rule sine_call_streaming) (simp add: d(1))
    also have "sine_carry (sine_phases ?sr (upsample ?r (cat2 f ?fR)) p) = ?p2"
      unfolding sp(1) using U1 UR Cons.prems(3) T1 TR by (rule sine_carry_cat2)
    also have "mix3 (upsample ?r (cat2 a ?aR))
                 (map3 sin (sine_phases ?sr (upsample ?r (cat2 f ?fR)) p)) = cat2 ?sig1 ?sigR"
    proof -
      have "map3 sin (sine_phases ?sr (cat2 (upsample ?r f) (upsample ?r ?fR)) p) =
            cat2 (map3 sin (sine_phases ?sr (upsample ?r f) p))
                 (map3 sin (sine_phases ?sr (upsample ?r ?fR) ?p1))"
        using U1 UR Cons.prems(3) T1 by (rule sin_phases_cat2)
      moreover have "mix3 (cat2 (upsample ?r a) (upsample ?r ?aR))
              (cat2 (map3 sin (sine_phases ?sr (upsample ?r f) p))
                    (map3 sin (sine_phases ?sr (upsample ?r ?fR) ?p1))) = cat2 ?sig1 ?sigR"
        using V1 VR
          rect3_map3 [OF rect3_sine_phases [OF U1 Cons.prems(3)]]
          rect3_map3 [OF rect3_sine_phases [OF UR p1]] pos(2)
        by (rule mix3_cat2)
      ultimately show ?thesis by (simp only: sp(1,3))
    qed
    finally have whole: "SineSynth_call self (cat2 f ?fR) (cat2 a ?aR) =
            (self\<lparr> phases := Some ?p2 \<rparr>, Inr (cat2 ?sig1 ?sigR))" .
    from ih callR have r: "SineSynth_render_chunks ?self1 chunks = (self\<lparr> phases := Some ?p2 \<rparr>, Inr signals)"
      and cl: "cat_last signals = ?sigR"
      by simp_all
    have wf_eq: "cat_last (map fst (c # chunks)) = cat2 f ?fR"
      and wa_eq: "cat_last (map snd (c # chunks)) = cat2 a ?aR"
      using False c by (simp_all add: cat_last_Cons)
    have rc: "SineSynth_render_chunks self (c # chunks) =
                (self\<lparr> phases := Some ?p2 \<rparr>, Inr (?sig1 # signals))"
      by (simp add: c call1 r)
    have cs: "cat_last (?sig1 # signals) = cat2 ?sig1 ?sigR"
      using ih(2) cl by (simp add: cat_last_Cons)
    show ?thesis
      unfolding wf_eq wa_eq whole rc fst_conv snd_conv
      by (rule exI [of _ "?sig1 # signals"]) (simp only: cs simp_thms list.distinct)
  qed
qed


lemma float_mod_small: "0 \<le> x \<Longrightarrow> x < y \<Longrightarrow> float_mod x y = x"
proof -
  assume a: "0 \<le> x" "x < y"
  then have "0 \<le> x / y" "x / y < 1" by simp_all
  then have "\<lfloor>x / y\<rfloor> = 0" by linarith
  then show ?thesis by (simp add: float_mod_def)
qed

lemma float_mod_self: "y \<noteq> 0 \<Longrightarrow> float_mod y y = 0"
  by (simp add: float_mod_def)

lemma float_mod_half_pi: "float_mod (pi / 2) (2 * pi) = pi / 2"
  by (rule float_mod_small) (use pi_gt_zero in simp_all)

lemma float_mod_pi: "float_mod pi (2 * pi) = pi"
  by (rule float_mod_small) (use pi_gt_zero in simp_all)

lemma float_mod_3half_pi: "float_mod (3 * pi / 2) (2 * pi) = 3 * pi / 2"
  by (rule float_mod_small) (use pi_gt_zero in simp_all)

lemma float_mod_2pi: "float_mod (2 * pi) (2 * pi) = 0"
  by (rule float_mod_self) simp

lemma float_mod_0: "float_mod 0 y = 0"
  by (simp add: float_mod_def)

lemma sin_3half_pi: "sin (3 * pi / 2) = - 1"
  using sin_3over2_pi by (simp add: field_simps)


lemmas pi_evals =
  float_mod_half_pi float_mod_pi float_mod_3half_pi float_mod_2pi float_mod_0 sin_3half_pi

lemma interpolate_row_one: "interpolate_row 1 xs = xs"
proof -
  have "(let src = max 0 ((real i + 1 / 2) / real 1 - 1 / 2);
             i0 = min (nat \<lfloor>src\<rfloor>) (length xs - 1);
             lam = min (max (src - real i0) 0) 1;
             i1 = i0 + (if i0 < length xs - 1 then 1 else 0)
         in (1 - lam) * xs ! i0 + lam * xs ! i1) = xs ! i"
    if "i \<in> set [0..<length xs * 1]" for i
  proof -
    from that have i: "i < length xs" by simp
    then have "min i (length xs - 1) = i" by simp
    then show ?thesis by (simp add: Let_def)
  qed
  then have "interpolate_row 1 xs = map (\<lambda>i. xs ! i) [0..<length xs * 1]"
    unfolding interpolate_row_def by (rule map_cong [OF refl])
  then show ?thesis by (simp add: map_nth)
qed

lemma upsample_one: "upsample 1 x = x"
proof -
  have "interpolate_row (Suc 0) xs = xs" for xs
    using interpolate_row_one [of xs] by simp
  then have "map (interpolate_row 1) m = m" for m
    by (induction m) simp_all
  then have "map (map (interpolate_row 1)) x = x"
    by (induction x) simp_all
  then show ?thesis by (simp only: upsample_def)
qed

lemma upsampling_splits_one: "upsampling_splits 1 xs"
proof (induction xs)
  case Nil
  show ?case by simp
next
  case (Cons x xs)
  then show ?case by (cases xs) (simp_all only: upsampling_splits.simps upsample_one simp_thms)
qed


text \<open>
  C3 as stated fails.  One oscillator, sample rate 4, resampling factor 2, streaming,
  fresh phases.  The frequency trajectory is constantly 1 (the phase advances by
  \<open>pi / 2\<close> per sample), the amplitude trajectory is \<open>[0, 1]\<close>.  In one call the
  amplitudes are upsampled to \<open>[0, 1/4, 3/4, 1]\<close> and the signal is
  \<open>[0, 0, -3/4, 0]\<close>.  As the chunks \<open>[0]\<close> and \<open>[1]\<close> the amplitudes are upsampled to
  \<open>[0, 0]\<close> and \<open>[1, 1]\<close>; the phase \<open>pi\<close> is carried over correctly, and the signals are
  \<open>[0, 0]\<close> and \<open>[-1, 0]\<close>.  The third sample is \<open>-1\<close> instead of \<open>-3/4\<close>.
\<close>

theorem sine_phase_continuity_counterexample:
  "SineSynth_call quarter_synth (cat2 [[[1]]] [[[1]]]) (cat2 [[[0]]] [[[1]]]) =
     (quarter_synth\<lparr> phases := Some [[0]] \<rparr>, Inr [[[0, 0, - (3 / 4), 0]]])
   \<and> SineSynth_call quarter_synth [[[1]]] [[[0]]] =
     (quarter_synth\<lparr> phases := Some [[pi]] \<rparr>, Inr [[[0, 0]]])
   \<and> SineSynth_call (quarter_synth\<lparr> phases := Some [[pi]] \<rparr>) [[[1]]] [[[1]]] =
     (quarter_synth\<lparr> phases := Some [[0]] \<rparr>, Inr [[[- 1, 0]]])
   \<and> cat2 [[[0, 0]]] [[[- 1, 0]]] \<noteq> [[[0, 0, - (3 / 4), 0 :: real]]]"
  by (simp add: quarter_synth_def sine_eval_defs pi_evals cat2_def)

text \<open>
  C3, amended.  A streaming \<open>SineSynth\<close> with fresh phases, a non-zero sample rate and a
  positive resampling factor renders a non-empty list of chunks, each with frequencies
  and amplitudes of one shape (B, n_sines, L), \<open>L > 0\<close>.  Provided that upsampling commutes
  with the chunking of both trajectories (\<open>upsampling_splits\<close>: true for resampling
  factor 1 and for trajectories constant in time), the chunked calls succeed, the
  single streaming call on the concatenated trajectory returns exactly the
  concatenation of the chunk signals and leaves the same phases, and the single
  non-streaming call returns the same signal.
\<close>

theorem sine_phase_continuity:
  assumes st: "streaming self" and fresh: "phases self = None" and n: "n_sines self = S"
    and sr: "fs self \<noteq> 0"
    and pos: "0 < B" "0 < S" "0 < resampling_factor self"
    and ne: "chunks \<noteq> []" and ok: "list_all (chunk_ok B S) chunks"
    and sf: "upsampling_splits (resampling_factor self) (map fst chunks)"
    and sa: "upsampling_splits (resampling_factor self) (map snd chunks)"
  shows "\<exists>signals.
           SineSynth_render_chunks self chunks =
             (fst (SineSynth_call self (cat_last (map fst chunks)) (cat_last (map snd chunks))),
              Inr signals)
         \<and> snd (SineSynth_call self (cat_last (map fst chunks)) (cat_last (map snd chunks))) =
             Inr (cat_last signals)
         \<and> snd (SineSynth_call (self\<lparr> streaming := False \<rparr>)
                  (cat_last (map fst chunks)) (cat_last (map snd chunks))) =
             Inr (cat_last signals)"
proof -
  let ?z = "replicate B (replicate S (0::real))"
  let ?self0 = "self\<lparr> phases := Some ?z \<rparr>"
  let ?f = "cat_last (map fst chunks)" and ?a = "cat_last (map snd chunks)"
  let ?r = "resampling_factor self"
  have z: "rect2 B S ?z" by (simp add: rect2_def list_all_iff)
  from ne ok obtain L where L: "0 < L" "rect3 B S L ?f" "rect3 B S L ?a"
    using chunks_whole_shape [of chunks B S] by auto
  \<comment> \<open>the first call allocates the zero buffer\<close>
  obtain f1 a1 rest where ch: "chunks = (f1, a1) # rest" using ne by (cases chunks) auto
  from ok ch have "rect3 B S (dim2 f1) f1" by (simp add: chunk_ok_def)
  then have "dim0 f1 = B" by (simp add: dim0_def rect3_def)
  then have "SineSynth_call self f1 a1 = SineSynth_call ?self0 f1 a1"
    using sine_call_fresh [OF st fresh, of f1 B a1] n by simp
  then have rc: "SineSynth_render_chunks self chunks = SineSynth_render_chunks ?self0 chunks"
    by (simp add: ch)
  have "dim0 ?f = B" using L(2) by (simp add: dim0_def rect3_def)
  then have wc: "SineSynth_call self ?f ?a = SineSynth_call ?self0 ?f ?a"
    using sine_call_fresh [OF st fresh, of ?f B ?a] n by simp
  \<comment> \<open>chunked and single streaming render from the zero buffer\<close>
  have "\<exists>signals.
           SineSynth_render_chunks ?self0 chunks = (fst (SineSynth_call ?self0 ?f ?a), Inr signals)
         \<and> signals \<noteq> []
         \<and> snd (SineSynth_call ?self0 ?f ?a) = Inr (cat_last signals)"
    by (rule render_chunks_streaming [where p = ?z and B = B and S = S])
       (use st z pos ne ok sf sa in simp_all)
  then obtain signals where sg:
    "SineSynth_render_chunks ?self0 chunks = (fst (SineSynth_call ?self0 ?f ?a), Inr signals)"
    "snd (SineSynth_call ?self0 ?f ?a) = Inr (cat_last signals)"
    by blast
  \<comment> \<open>the non-streaming render\<close>
  have "SineSynth_call ?self0 ?f ?a =
     (?self0\<lparr> phases := Some (sine_carry (sine_phases (fs ?self0)
                  (upsample (resampling_factor ?self0) ?f) ?z)) \<rparr>,
      Inr (mix3 (upsample (resampling_factor ?self0) ?a)
             (map3 sin (sine_phases (fs ?self0) (upsample (resampling_factor ?self0) ?f) ?z))))"
    by (rule sine_call_streaming [where B = B and S = S and L = L])
       (use st z pos L in simp_all)
  then have s1: "snd (SineSynth_call ?self0 ?f ?a) =
      Inr (mix3 (upsample ?r ?a) (map3 sin (sine_phases (fs self) (upsample ?r ?f) ?z)))"
    by simp
  have "SineSynth_call (self\<lparr> streaming := False \<rparr>) ?f ?a =
     (self\<lparr> streaming := False \<rparr>,
      Inr (mix3 (upsample (resampling_factor (self\<lparr> streaming := False \<rparr>)) ?a)
             (map3 sin (sine_phases (fs (self\<lparr> streaming := False \<rparr>))
                (upsample (resampling_factor (self\<lparr> streaming := False \<rparr>)) ?f) ?z))))"
    by (rule sine_call_nonstreaming [where B = B and S = S and L = L])
       (use pos L in simp_all)
  then have s2: "snd (SineSynth_call (self\<lparr> streaming := False \<rparr>) ?f ?a) =
      Inr (mix3 (upsample ?r ?a) (map3 sin (sine_phases (fs self) (upsample ?r ?f) ?z)))"
    by simp
  from s1 s2 sg(2) have ns: "snd (SineSynth_call (self\<lparr> streaming := False \<rparr>) ?f ?a) =
      Inr (cat_last signals)" by simp
  show ?thesis
    unfolding rc wc using sg ns by blast
qed

theorem sine_phase_continuity_witness:
  "streaming quarter_synth \<and> phases quarter_synth = None \<and> n_sines quarter_synth = 1
   \<and> fs quarter_synth \<noteq> 0 \<and> 0 < resampling_factor quarter_synth
   \<and> list_all (chunk_ok 1 1) [unit_chunk, unit_chunk]
   \<and> upsampling_splits (resampling_factor quarter_synth) (map fst [unit_chunk, unit_chunk])
   \<and> upsampling_splits (resampling_factor quarter_synth) (map snd [unit_chunk, unit_chunk])
   \<and> SineSynth_render_chunks quarter_synth [unit_chunk, unit_chunk] =
       (quarter_synth\<lparr> phases := Some [[0]] \<rparr>, Inr [[[[1, 0]]], [[[- 1, 0]]]])
   \<and> snd (SineSynth_call quarter_synth (cat_last (map fst [unit_chunk, unit_chunk]))
             (cat_last (map snd [unit_chunk, unit_chunk])))
       = Inr (cat_last [[[[1, 0]]], [[[- 1, 0]]]])
   \<and> snd (SineSynth_call (quarter_synth\<lparr> streaming := False \<rparr>)
             (cat_last (map fst [unit_chunk, unit_chunk]))
             (cat_last (map snd [unit_chunk, unit_chunk])))
       = Inr (cat_last [[[[1, 0]]], [[[- 1, 0]]]])"
proof -
  have h: "streaming quarter_synth" "phases quarter_synth = None" "n_sines quarter_synth = 1"
    "fs quarter_synth \<noteq> 0" "0 < resampling_factor quarter_synth"
    by (simp_all add: quarter_synth_def SineSynth_init_def)
  have ok: "list_all (chunk_ok 1 1) [unit_chunk, unit_chunk]"
    by (simp add: unit_chunk_def chunk_ok_def rect3_def rect2_def dim2_def dim1_def)
  have r: "resampling_factor quarter_synth = 2"
    by (simp add: quarter_synth_def SineSynth_init_def)
  have sp: "upsampling_splits (resampling_factor quarter_synth) (map fst [unit_chunk, unit_chunk])"
    "upsampling_splits (resampling_factor quarter_synth) (map snd [unit_chunk, unit_chunk])"
    by (simp_all add: r unit_chunk_def upsample_def interpolate_row_def cat2_def Let_def upt_rec)
  have c1: "SineSynth_call quarter_synth [[[1]]] [[[1]]] =
     (quarter_synth\<lparr> phases := Some [[pi]] \<rparr>, Inr [[[1, 0]]])"
    by (simp add: quarter_synth_def sine_eval_defs pi_evals)
  have c2: "SineSynth_call (quarter_synth\<lparr> phases := Some [[pi]] \<rparr>) [[[1]]] [[[1]]] =
     (quarter_synth\<lparr> phases := Some [[0]] \<rparr>, Inr [[[- 1, 0]]])"
    by (simp add: quarter_synth_def sine_eval_defs pi_evals)
  have rc: "SineSynth_render_chunks quarter_synth [unit_chunk, unit_chunk] =
       (quarter_synth\<lparr> phases := Some [[0]] \<rparr>, Inr [[[[1, 0]]], [[[- 1, 0]]]])"
    by (simp add: unit_chunk_def c1 c2)
  from sine_phase_continuity [OF h(1-4) _ _ h(5) _ ok sp]
  obtain signals where
    "SineSynth_render_chunks quarter_synth [unit_chunk, unit_chunk] =
       (fst (SineSynth_call quarter_synth (cat_last (map fst [unit_chunk, unit_chunk]))
               (cat_last (map snd [unit_chunk, unit_chunk]))), Inr signals)"
    "snd (SineSynth_call quarter_synth (cat_last (map fst [unit_chunk, unit_chunk]))
             (cat_last (map snd [unit_chunk, unit_chunk]))) = Inr (cat_last signals)"
    "snd (SineSynth_call (quarter_synth\<lparr> streaming := False \<rparr>)
             (cat_last (map fst [unit_chunk, unit_chunk]))
             (cat_last (map snd [unit_chunk, unit_chunk]))) = Inr (cat_last signals)"
    by auto
  with rc h ok sp show ?thesis by simp
qed

section \<open>Shape mismatches\<close>

lemma sequence_Inl: "sequence rs = Inl e \<Longrightarrow> Inl e \<in> set rs"
  by (induction rs rule: sequence.induct) (auto split: sum.splits)

lemma sequence_total:
  assumes "\<And>r. r \<in> set rs \<Longrightarrow> \<exists>z. r = Inr z"
  shows "\<exists>zs. sequence rs = Inr zs"
  using assms
proof (induction rs)
  case Nil
  show ?case by simp
next
  case (Cons r rs)
  from Cons.prems obtain z where "r = Inr z" by auto
  moreover from Cons obtain zs where "sequence rs = Inr zs" by auto
  ultimately show ?case by simp
qed

lemma sequence_all_Inl:
  assumes "rs \<noteq> []" "\<And>r. r \<in> set rs \<Longrightarrow> r = Inl e"
  shows "sequence rs = Inl e"
proof -
  from assms(1) obtain r rest where rs: "rs = r # rest" by (cases rs) auto
  with assms(2) have "r = Inl e" by simp
  with rs show ?thesis by simp
qed

lemma bcast2_only_runtime:
  assumes "\<And>x y e. f x y = Inl e \<Longrightarrow> e = RuntimeError"
    and "bcast2 f xs ys = Inl e"
  shows "e = RuntimeError"
proof (rule ccontr)
  assume ne: "e \<noteq> RuntimeError"
  have "Inl e \<notin> set (map2 f xs ys)" "Inl e \<notin> set (map (f (hd xs)) ys)"
    "Inl e \<notin> set (map (\<lambda>x. f x (hd ys)) xs)"
    using assms(1) ne by (auto simp: in_set_zip)
  with assms(2) ne show False
    by (auto simp: bcast2_def split: if_splits dest!: sequence_Inl)
qed

lemma bcast2_total:
  assumes "\<And>x y. x \<in> set xs \<Longrightarrow> y \<in> set ys \<Longrightarrow> \<exists>z. f x y = Inr z"
    and "length xs = length ys \<or> length xs = 1 \<or> length ys = 1"
  shows "\<exists>zs. bcast2 f xs ys = Inr zs"
proof -
  have a: "\<exists>zs. sequence (map2 f xs ys) = Inr zs"
    by (rule sequence_total) (use assms(1) in \<open>auto dest: set_zip_leftD set_zip_rightD\<close>)
  have b: "\<exists>zs. sequence (map (f (hd xs)) ys) = Inr zs" if "length xs = 1"
  proof (rule sequence_total)
    fix r assume "r \<in> set (map (f (hd xs)) ys)"
    moreover from that have "hd xs \<in> set xs" by (cases xs) auto
    ultimately show "\<exists>z. r = Inr z" using assms(1) by auto
  qed
  have c: "\<exists>zs. sequence (map (\<lambda>x. f x (hd ys)) xs) = Inr zs" if "length ys = 1"
  proof (rule sequence_total)
    fix r assume "r \<in> set (map (\<lambda>x. f x (hd ys)) xs)"
    moreover from that have "hd ys \<in> set ys" by (cases ys) auto
    ultimately show "\<exists>z. r = Inr z" using assms(1) by auto
  qed
  from assms(2) a b c show ?thesis by (auto simp: bcast2_def)
qed

lemma bcast2_mismatch:
  "length xs \<noteq> length ys \<Longrightarrow> length xs \<noteq> 1 \<Longrightarrow> length ys \<noteq> 1 \<Longrightarrow>
     bcast2 f xs ys = Inl RuntimeError"
  by (simp add: bcast2_def)

lemma mul3_only_runtime: "mul3 a b = Inl e \<Longrightarrow> e = RuntimeError"
  unfolding mul3_def
  by (erule bcast2_only_runtime [rotated], erule bcast2_only_runtime [rotated],
      erule bcast2_only_runtime [rotated]) simp

lemma add_phases_only_runtime: "add_phases ph p = Inl e \<Longrightarrow> e = RuntimeError"
  unfolding add_phases_def
  by (erule bcast2_only_runtime [rotated], erule bcast2_only_runtime [rotated]) simp

lemma expand_only_runtime: "expand n xs = Inl e \<Longrightarrow> e = RuntimeError"
  by (simp add: expand_def split: if_splits)

lemma copy_into_only_runtime: "copy_into dest src = Inl e \<Longrightarrow> e = RuntimeError"
proof -
  assume a: "copy_into dest src = Inl e"
  show ?thesis
  proof (cases "expand (dim0 dest) src")
    case (Inl e')
    with a show ?thesis by (auto simp: copy_into_def dest: expand_only_runtime)
  next
    case (Inr rows)
    with a have "sequence (map (expand (dim1 dest)) rows) = Inl e"
      by (simp add: copy_into_def)
    then have "Inl e \<in> set (map (expand (dim1 dest)) rows)" by (rule sequence_Inl)
    then obtain row where "row \<in> set rows" "Inl e = expand (dim1 dest) row" by auto
    then have "expand (dim1 dest) row = Inl e" by simp
    then show ?thesis by (rule expand_only_runtime)
  qed
qed

lemma interpolate_only_runtime: "interpolate r x = Inl e \<Longrightarrow> e = RuntimeError"
  by (simp add: interpolate_def split: if_splits)

lemma noise_call_errors:
  "snd (NoiseBandSynth_call self k a) = Inl e \<Longrightarrow> e = RuntimeError \<or> e = ZeroDivisionError"
  by (auto simp: NoiseBandSynth_call_def Let_def split: sum.splits if_splits
      dest: interpolate_only_runtime mul3_only_runtime)

lemma sine_call_errors:
  "snd (SineSynth_call self f a) = Inl e \<Longrightarrow> e = RuntimeError"
  by (auto simp: SineSynth_call_def Let_def split: sum.splits if_splits option.splits
      dest: interpolate_only_runtime mul3_only_runtime add_phases_only_runtime
        copy_into_only_runtime)

lemma harmonic_call_errors:
  "snd (HarmonicSynth_call self fu a) = Inl e \<Longrightarrow> e = RuntimeError"
  by (auto simp: HarmonicSynth_call_def harmonic_frequencies_def Let_def
      split: sum.splits fundamental_tensor.splits
      dest: sine_call_errors mul3_only_runtime)

lemma mul3_bands_broadcast:
  assumes "rect3 B C T u" "rect2 F T w" "C = F \<or> C = 1 \<or> F = 1"
  shows "\<exists>p. mul3 u [w] = Inr p"
  unfolding mul3_def
proof (rule bcast2_total)
  show "length u = length [w] \<or> length u = 1 \<or> length [w] = 1" by simp
next
  fix m w' assume m: "m \<in> set u" and "w' \<in> set [w]"
  then have w': "w' = w" by simp
  have rm: "rect2 C T m" using assms(1) m by (rule rect3_mat)
  show "\<exists>z. bcast2 (bcast2 (\<lambda>x y. Inr (x * y))) m w' = Inr z"
    unfolding w'
  proof (rule bcast2_total)
    show "length m = length w \<or> length m = 1 \<or> length w = 1"
      using rm assms(2,3) by (simp add: rect2_def)
  next
    fix row wrow assume "row \<in> set m" "wrow \<in> set w"
    then have "length row = length wrow"
      using rm assms(2) by (simp add: rect2_row)
    then show "\<exists>z. bcast2 (\<lambda>x y. Inr (x * y)) row wrow = Inr z"
      by (simp add: mul_rows)
  qed
qed

lemma mul3_bands_mismatch:
  assumes "rect3 B C T u" "rect2 F T w" "0 < B" "C \<noteq> F" "C \<noteq> 1" "F \<noteq> 1"
  shows "mul3 u [w] = Inl RuntimeError"
proof -
  let ?g = "bcast2 (bcast2 (\<lambda>x y. Inr (x * (y::real))))"
  have e: "?g m w = Inl RuntimeError" if "m \<in> set u" for m
  proof -
    have "rect2 C T m" using assms(1) that by (rule rect3_mat)
    then show ?thesis using assms(2,4-6) by (intro bcast2_mismatch) (simp_all add: rect2_def)
  qed
  have ne: "u \<noteq> []" using assms(1,3) by (auto simp: rect3_def)
  show ?thesis
  proof (cases "length u = 1")
    case True
    then obtain m where u: "u = [m]" by (cases u) auto
    with e [of m] show ?thesis by (simp add: mul3_def bcast2_def)
  next
    case False
    have "sequence (map (\<lambda>x. ?g x w) u) = Inl RuntimeError"
      by (rule sequence_all_Inl) (use ne e in auto)
    with False show ?thesis by (simp add: mul3_def bcast2_def)
  qed
qed

lemma rect2_roll_last: "rect2 F N nb \<Longrightarrow> rect2 F N (roll_last s nb)"
  by (auto simp: rect2_def roll_last_def roll_row_def list_all_iff)

lemma rect2_looped:
  assumes "rect2 F N nb" "0 < N"
  shows "rect2 F T (trim_last T (repeat_last (nat \<lceil>real T / real N\<rceil>) nb))"
proof -
  have "length (take T (concat (replicate (nat \<lceil>real T / real N\<rceil>) row))) = T"
    if "row \<in> set nb" for row
  proof -
    from that assms have l: "length row = N" by (simp add: rect2_row)
    have "T \<le> nat \<lceil>real T / real N\<rceil> * N" using assms(2) by (rule repeats_cover)
    then show ?thesis by (simp add: length_concat sum_list_replicate l)
  qed
  with assms show ?thesis
    by (simp add: rect2_def trim_last_def repeat_last_def list_all_iff)
qed


lemma noise_call_result:
  assumes nb: "rect2 F N (nbs_noisebands self)" "0 < F" "0 < N"
    and a: "rect3 B C L amplitudes" "0 < B" "0 < C" "0 < L"
    and r: "0 < nbs_resampling_factor self"
  shows "\<exists>w. rect2 F (L * nbs_resampling_factor self) w
           \<and> snd (NoiseBandSynth_call self k amplitudes) =
               (case mul3 (upsample (nbs_resampling_factor self) amplitudes) [w] of
                  Inl e \<Rightarrow> Inl e | Inr product \<Rightarrow> Inr (sum_dim1 product))"
proof -
  let ?r = "nbs_resampling_factor self" and ?nb = "nbs_noisebands self"
  let ?u = "upsample ?r amplitudes"
  let ?T = "L * ?r"
  have i: "interpolate ?r amplitudes = Inr ?u" using a r by (rule interpolate_rect3)
  have u: "rect3 B C ?T ?u" using a(1) by (rule rect3_upsample)
  have dT: "dim2 ?u = ?T" using u a(2,3) by (rule dim2_rect3)
  have dN: "dim1 ?nb = N" using nb(1,2) by (rule dim1_rect2)
  let ?rolled = "roll_last (- nbs_noisebands_shift self) ?nb"
  let ?bands = "if nbs_training self then roll_last (int k) ?rolled else ?rolled"
  have rb: "rect2 F N ?bands" using nb(1) by (simp add: rect2_roll_last)
  have dB: "dim1 ?bands = N" by (simp add: dim1_roll_last dN)
  let ?w = "trim_last ?T (repeat_last (nat \<lceil>real ?T / real N\<rceil>) ?bands)"
  have w: "rect2 F ?T ?w" using rb nb(3) by (rule rect2_looped)
  have "snd (NoiseBandSynth_call self k amplitudes) =
          (case mul3 ?u [?w] of Inl e \<Rightarrow> Inl e | Inr product \<Rightarrow> Inr (sum_dim1 product))"
    using nb(3) by (simp add: NoiseBandSynth_call_def i Let_def dim1_roll_last dN dT)
  with w show ?thesis by blast
qed

text \<open>
  C5 as stated fails.  \<open>example_synth\<close> declares \<open>n_filters = 2\<close> and holds two noise bands.
  An amplitudes tensor with one channel is accepted and broadcast over both bands; one
  with three channels fails, with torch's \<open>RuntimeError\<close>.  A non-streaming sine synth
  declaring \<open>n_sines = 2\<close> accepts slots with three channels, and one given a
  frequencies slot of batch size 1 with an amplitudes slot of batch size 2 broadcasts.
\<close>

theorem render_shape_counterexample:
  "nbs_n_filters example_synth = 2 \<and> dim1 [[[1::real]]] = 1
   \<and> snd (NoiseBandSynth_call example_synth 0 [[[1]]]) = Inr [[[11, 22]]]
   \<and> dim1 [[[1::real], [1], [1]]] = 3
   \<and> snd (NoiseBandSynth_call example_synth 0 [[[1], [1], [1]]]) = Inl RuntimeError
   \<and> n_sines (SineSynth_init 4 2 1 False) = 2
   \<and> snd (SineSynth_call (SineSynth_init 4 2 1 False) [[[0], [0], [0]]] [[[1], [1], [1]]])
       = Inr [[[0]]]
   \<and> dim0 [[[0::real]]] = 1 \<and> dim0 [[[1::real]], [[1]]] = 2
   \<and> snd (SineSynth_call (SineSynth_init 4 1 1 False) [[[0]]] [[[1]], [[1]]])
       = Inr [[[0]], [[0]]]"
  by (simp add: example_defs eval_defs SineSynth_call_def map3_def cumsum_def float_mod_0
      upt_rec ceiling_half)

text \<open>
  C5, amended.  No render checks a slot against its declared width, and none raises
  \<open>InvalidShapeError\<close>.  For a \<open>NoiseBandSynth\<close> with noisebands of shape (F, N) and
  amplitudes of shape (B, C, L), all sizes and the resampling factor positive: the call
  returns a signal when \<open>C = F\<close>, and also, by broadcasting, when \<open>C = 1\<close> or \<open>F = 1\<close>; it
  fails, with \<open>RuntimeError\<close>, when \<open>C\<close> and \<open>F\<close> differ and neither is 1.  The result of a
  non-streaming \<open>SineSynth\<close> does not depend on \<open>n_sines\<close>.
\<close>

theorem render_shape_handling:
  fixes sine :: SineSynth
  assumes nb: "rect2 F N (nbs_noisebands self)" "0 < F" "0 < N"
    and a: "rect3 B C L amplitudes" "0 < B" "0 < C" "0 < L"
    and r: "0 < nbs_resampling_factor self"
  shows "(C = F \<or> C = 1 \<or> F = 1 \<longrightarrow>
            (\<exists>signal. snd (NoiseBandSynth_call self k amplitudes) = Inr signal))
       \<and> (C \<noteq> F \<and> C \<noteq> 1 \<and> F \<noteq> 1 \<longrightarrow>
            snd (NoiseBandSynth_call self k amplitudes) = Inl RuntimeError)
       \<and> snd (NoiseBandSynth_call noise k' a') \<noteq> Inl InvalidShapeError
       \<and> snd (SineSynth_call sine f a'') \<noteq> Inl InvalidShapeError
       \<and> snd (HarmonicSynth_call harm fu a''') \<noteq> Inl InvalidShapeError
       \<and> (\<not> streaming sine \<longrightarrow>
            snd (SineSynth_call (sine\<lparr> n_sines := n \<rparr>) f a'') = snd (SineSynth_call sine f a''))"
proof -
  let ?r = "nbs_resampling_factor self"
  from noise_call_result [OF nb a r, of k] obtain w where
    w: "rect2 F (L * ?r) w" and
    c: "snd (NoiseBandSynth_call self k amplitudes) =
          (case mul3 (upsample ?r amplitudes) [w] of
             Inl e \<Rightarrow> Inl e | Inr product \<Rightarrow> Inr (sum_dim1 product))"
    by blast
  have u: "rect3 B C (L * ?r) (upsample ?r amplitudes)" using a(1) by (rule rect3_upsample)
  have p1: "C = F \<or> C = 1 \<or> F = 1 \<longrightarrow>
            (\<exists>signal. snd (NoiseBandSynth_call self k amplitudes) = Inr signal)"
  proof
    assume "C = F \<or> C = 1 \<or> F = 1"
    with u w have "\<exists>p. mul3 (upsample ?r amplitudes) [w] = Inr p" by (rule mul3_bands_broadcast)
    with c show "\<exists>signal. snd (NoiseBandSynth_call self k amplitudes) = Inr signal" by auto
  qed
  have p2: "C \<noteq> F \<and> C \<noteq> 1 \<and> F \<noteq> 1 \<longrightarrow>
            snd (NoiseBandSynth_call self k amplitudes) = Inl RuntimeError"
  proof
    assume "C \<noteq> F \<and> C \<noteq> 1 \<and> F \<noteq> 1"
    then have "C \<noteq> F" "C \<noteq> 1" "F \<noteq> 1" by blast+
    with u w a(2) have "mul3 (upsample ?r amplitudes) [w] = Inl RuntimeError"
      by (rule mul3_bands_mismatch)
    with c show "snd (NoiseBandSynth_call self k amplitudes) = Inl RuntimeError" by simp
  qed
  have p3: "snd (NoiseBandSynth_call noise k' a') \<noteq> Inl InvalidShapeError"
    using noise_call_errors [of noise k' a' InvalidShapeError] by auto
  have p4: "snd (SineSynth_call sine f a'') \<noteq> Inl InvalidShapeError"
    using sine_call_errors [of sine f a'' InvalidShapeError] by auto
  have p5: "snd (HarmonicSynth_call harm fu a''') \<noteq> Inl InvalidShapeError"
    using harmonic_call_errors [of harm fu a''' InvalidShapeError] by auto
  have p6: "\<not> streaming sine \<longrightarrow>
            snd (SineSynth_call (sine\<lparr> n_sines := n \<rparr>) f a'') = snd (SineSynth_call sine f a'')"
    by (simp add: SineSynth_call_def Let_def split: sum.splits)
  from p1 p2 p3 p4 p5 p6 show ?thesis by blast
qed

theorem render_shape_handling_witness:
  "rect2 2 4 (nbs_noisebands example_synth) \<and> rect3 1 1 1 [[[1::real]]]
   \<and> 0 < nbs_resampling_factor example_synth
   \<and> (\<exists>signal. snd (NoiseBandSynth_call example_synth 0 [[[1]]]) = Inr signal)
   \<and> rect2 3 4 [[1, 2, 3, 4], [1, 2, 3, 4], [1, 2, 3, 4 :: real]]
   \<and> rect3 1 2 1 [[[1::real], [2]]]
   \<and> snd (NoiseBandSynth_call
             (example_synth\<lparr> nbs_noisebands := [[1, 2, 3, 4], [1, 2, 3, 4], [1, 2, 3, 4]] \<rparr>)
             0 [[[1], [2]]]) = Inl RuntimeError
   \<and> \<not> streaming (SineSynth_init 4 2 1 False)
   \<and> snd (SineSynth_call ((SineSynth_init 4 2 1 False)\<lparr> n_sines := 5 \<rparr>) [[[0]]] [[[1]]])
       = snd (SineSynth_call (SineSynth_init 4 2 1 False) [[[0]]] [[[1]]])"
proof -
  let ?s3 = "example_synth\<lparr> nbs_noisebands := [[1, 2, 3, 4], [1, 2, 3, 4], [1, 2, 3, 4]] \<rparr>"
  have nb: "rect2 2 4 (nbs_noisebands example_synth)"
    by (simp add: example_defs rect2_def)
  have nb3: "rect2 3 4 (nbs_noisebands ?s3)" by (simp add: rect2_def)
  have a1: "rect3 1 1 1 [[[1::real]]]" and a2: "rect3 1 2 1 [[[1::real], [2]]]"
    by (simp_all add: rect3_def rect2_def)
  have r: "0 < nbs_resampling_factor example_synth" "0 < nbs_resampling_factor ?s3"
    by (simp_all add: example_defs)
  have ns: "\<not> streaming (SineSynth_init 4 2 1 False)" by (simp add: SineSynth_init_def)
  from render_shape_handling [OF nb _ _ a1 _ _ _ r(1),
         of 0 example_synth 0 "[]" "SineSynth_init 4 2 1 False" "[[[0]]]" "[[[1]]]"
            "HarmonicSynth_init 4 1 1 False" "Rank3 []" "[]" 5] ns
  have w1: "\<exists>signal. snd (NoiseBandSynth_call example_synth 0 [[[1]]]) = Inr signal"
    and w3: "snd (SineSynth_call ((SineSynth_init 4 2 1 False)\<lparr> n_sines := 5 \<rparr>) [[[0]]] [[[1]]])
       = snd (SineSynth_call (SineSynth_init 4 2 1 False) [[[0]]] [[[1]]])"
    by simp_all
  from render_shape_handling [OF nb3 _ _ a2 _ _ _ r(2),
         of 0 example_synth 0 "[]" "SineSynth_init 4 2 1 False" "[[[0]]]" "[[[1]]]"
            "HarmonicSynth_init 4 1 1 False" "Rank3 []" "[]" 5]
  have w2: "snd (NoiseBandSynth_call ?s3 0 [[[1], [2]]]) = Inl RuntimeError"
    by simp
  from nb nb3 a1 a2 r ns w1 w2 w3 show ?thesis by simp
qed

section \<open>Harmonic frequencies\<close>

lemma bcast2_left_single:
  assumes "\<And>y. y \<in> set ys \<Longrightarrow> f x y = Inr (g x y)"
  shows "bcast2 f [x] ys = Inr (map (g x) ys)"
proof (cases "length ys = 1")
  case True
  then obtain y where ys: "ys = [y]" by (cases ys) auto
  with assms show ?thesis by (simp add: bcast2_def)
next
  case False
  have "sequence (map (f x) ys) = Inr (map (g x) ys)"
    by (rule sequence_map_Inr) (use assms in auto)
  with False show ?thesis by (simp add: bcast2_def)
qed

lemma harmonic_frequencies_rank3:
  assumes "rect3 B 1 T f"
  shows "harmonic_frequencies self (Rank3 f) =
         Inr (map (\<lambda>m. map (\<lambda>h. map (\<lambda>x. x * real h) (hd m)) [1..<n_harmonics self + 1]) f)"
proof -
  let ?hs = "map (\<lambda>h. [real h]) [1..<n_harmonics self + 1]"
  have row: "bcast2 (\<lambda>x y. Inr (x * y)) xs [h] = Inr (map (\<lambda>x. x * h) xs)"
    for xs :: "real list" and h
    by (rule bcast2_right_single) simp
  have mat: "bcast2 (bcast2 (\<lambda>x y. Inr (x * y))) m ?hs =
             Inr (map (\<lambda>h. map (\<lambda>x. x * real h) (hd m)) [1..<n_harmonics self + 1])"
    if "m \<in> set f" for m
  proof -
    from assms that have "length m = 1" by (auto dest: rect3_mat simp: rect2_def)
    then obtain xs where m: "m = [xs]" by (cases m) auto
    have "bcast2 (bcast2 (\<lambda>x y. Inr (x * y))) [xs] ?hs =
          Inr (map (\<lambda>hrow. map (\<lambda>x. x * hd hrow) xs) ?hs)"
      by (rule bcast2_left_single) (auto simp: row)
    then show ?thesis by (simp add: m o_def)
  qed
  have "bcast2 (bcast2 (bcast2 (\<lambda>x y. Inr (x * y)))) f [?hs] =
        Inr (map (\<lambda>m. map (\<lambda>h. map (\<lambda>x. x * real h) (hd m)) [1..<n_harmonics self + 1]) f)"
    by (rule bcast2_right_single) (rule mat)
  then show ?thesis
    by (simp add: harmonic_frequencies_def harmonics_arange_def mul3_def)
qed


text \<open>
  C6.  For a fundamental of shape (batch, 1, samples) the frequencies are
  \<open>fundamental * (h + 1)\<close> (\<open>harmonic_frequencies_rank3\<close>).  For the shape
  (batch, samples) that the docstring gives, the batch dimension is paired with the
  harmonic dimension: two fundamentals \<open>1\<close> and \<open>2\<close> with two harmonics give the single
  batch element \<open>[1 * 1, 2 * 2]\<close> instead of \<open>[1, 2]\<close> and \<open>[2, 4]\<close>, and with three
  harmonics the product fails.
\<close>

theorem harmonic_frequencies_rank2_batch:
  "harmonic_frequencies (HarmonicSynth_init 4 2 1 False) (Rank3 [[[1]], [[2]]])
     = Inr [[[1], [2]], [[2], [4]]]
   \<and> harmonic_frequencies (HarmonicSynth_init 4 2 1 False) (Rank2 [[1], [2]])
     = Inr [[[1], [4]]]
   \<and> harmonic_frequencies (HarmonicSynth_init 4 3 1 False) (Rank2 [[1], [2]])
     = Inl RuntimeError"
  by (simp add: HarmonicSynth_init_def harmonic_frequencies_def harmonics_arange_def
      mul3_def bcast2_def upt_rec)

end
